theory Spec2Isabelle
  imports Main "HOL-Library.Word"
begin

section \<open>Wire values and the static types of message.h\<close>

text \<open>
  The overloads of \<open>Message::operator<<\<close> and \<open>Message::operator>>\<close> are selected by
  the static C++ type of their argument. The embedding makes that type a value:
  \<open>dtype\<close> lists the types the operators of message.h accept, \<open>dval\<close> the values of
  those types. The primitive kinds are the thirteen overloads declared at
  message.h:344-358 and 437-449. Fixed-width integers are machine words; a double is
  its 64-bit pattern (the operators only move it); a file-descriptor handle is an
  integer.
\<close>

datatype prim =
    PUInt8 "8 word" | PBool bool | PInt16 "16 word" | PUInt16 "16 word"
  | PInt32 "32 word" | PUInt32 "32 word" | PInt64 "64 word" | PUInt64 "64 word"
  | PDouble "64 word" | PString string | PObjectPath string | PSignature string
  | PUnixFD int

datatype ptype =
    TUInt8 | TBool | TInt16 | TUInt16 | TInt32 | TUInt32 | TInt64 | TUInt64
  | TDouble | TString | TObjectPath | TSignature | TUnixFD

datatype dtype =
    TPrim ptype | TVariant | TPair dtype dtype | TTuple "dtype list"
  | TDBusStruct "dtype list" | TDictEntry dtype dtype | TVector dtype

text \<open>
  \<open>class Variant\<close> (message.h:139-205) has the members \<open>signature_\<close>, \<open>data_\<close> and
  \<open>helper_\<close>, here \<open>m_signature\<close>, \<open>m_data\<close> and \<open>m_helper\<close>. The payload \<open>data_\<close> is a \<open>shared_ptr<void>\<close>: \<open>None\<close> is the null
  pointer. The helper is a \<open>VariantHelper<Value>\<close>, an object without state that is
  determined by its template argument, so it is represented by that type.
  A vector carries its element type, which \<open>operator>>\<close> needs for \<open>T temp\<close>.
\<close>

datatype dval =
    VPrim prim | VPair dval dval | VTuple "dval list" | VDBusStruct "dval list"
  | VDictEntry dval dval | VVector dtype "dval list" | VVariant Variant
and Variant =
    Variant (m_signature: string) (m_data: "dval option") (m_helper: "dtype option")

fun ptype_of :: "prim \<Rightarrow> ptype" where
  "ptype_of (PUInt8 _) = TUInt8"
| "ptype_of (PBool _) = TBool"
| "ptype_of (PInt16 _) = TInt16"
| "ptype_of (PUInt16 _) = TUInt16"
| "ptype_of (PInt32 _) = TInt32"
| "ptype_of (PUInt32 _) = TUInt32"
| "ptype_of (PInt64 _) = TInt64"
| "ptype_of (PUInt64 _) = TUInt64"
| "ptype_of (PDouble _) = TDouble"
| "ptype_of (PString _) = TString"
| "ptype_of (PObjectPath _) = TObjectPath"
| "ptype_of (PSignature _) = TSignature"
| "ptype_of (PUnixFD _) = TUnixFD"

fun type_of :: "dval \<Rightarrow> dtype" where
  "type_of (VPrim p) = TPrim (ptype_of p)"
| "type_of (VPair a b) = TPair (type_of a) (type_of b)"
| "type_of (VTuple t) = TTuple (map type_of t)"
| "type_of (VDBusStruct t) = TDBusStruct (map type_of t)"
| "type_of (VDictEntry k v) = TDictEntry (type_of k) (type_of v)"
| "type_of (VVector T xs) = TVector T"
| "type_of (VVariant v) = TVariant"

text \<open>
  Value-initialisation, as \<open>std::make_shared<Value>()\<close> (message.h:91) performs it:
  zero for the arithmetic types, the empty string, the default constructors
  \<open>ObjectPath(path = {})\<close> (message.h:242), \<open>Signature(sig = {})\<close> (message.h:252),
  \<open>Variant() = default\<close> (message.h:141), \<open>DictEntry() = default\<close> (message.h:210),
  \<open>DBusStruct() = default\<close> (message.h:46), the empty vector. The default
  file-descriptor handle is written \<open>-1\<close> (unixfd.h is not part of the sources;
  no theorem depends on the number).
\<close>

fun default_prim :: "ptype \<Rightarrow> prim" where
  "default_prim TUInt8 = PUInt8 0"
| "default_prim TBool = PBool False"
| "default_prim TInt16 = PInt16 0"
| "default_prim TUInt16 = PUInt16 0"
| "default_prim TInt32 = PInt32 0"
| "default_prim TUInt32 = PUInt32 0"
| "default_prim TInt64 = PInt64 0"
| "default_prim TUInt64 = PUInt64 0"
| "default_prim TDouble = PDouble 0"
| "default_prim TString = PString []"
| "default_prim TObjectPath = PObjectPath []"
| "default_prim TSignature = PSignature []"
| "default_prim TUnixFD = PUnixFD (- 1)"

fun default_val :: "dtype \<Rightarrow> dval" where
  "default_val (TPrim p) = VPrim (default_prim p)"
| "default_val TVariant = VVariant (Variant [] None None)"
| "default_val (TPair a b) = VPair (default_val a) (default_val b)"
| "default_val (TTuple ts) = VTuple (map default_val ts)"
| "default_val (TDBusStruct ts) = VDBusStruct (map default_val ts)"
| "default_val (TDictEntry k v) = VDictEntry (default_val k) (default_val v)"
| "default_val (TVector T) = VVector T []"

section \<open>The signature grammar\<close>

text \<open>
  Modelled from the spec: \<open>DBusSignatureTraits\<close> and \<open>DBusContainerSignatureTraits\<close>
  are declared in message_details.h, which is not part of the sources. The codes are
  the table of the spec's section 6; a struct is its field signatures between
  parentheses, a dict-entry its key and value signatures between braces, an array
  \<open>a\<close> followed by the element signature, a variant \<open>v\<close>. The spec gives a bare pair
  or tuple no delimiters of its own: their signature is the concatenation of the
  field signatures.
\<close>

fun type_code :: "ptype \<Rightarrow> char" where
  "type_code TUInt8 = CHR ''y''"
| "type_code TBool = CHR ''b''"
| "type_code TInt16 = CHR ''n''"
| "type_code TUInt16 = CHR ''q''"
| "type_code TInt32 = CHR ''i''"
| "type_code TUInt32 = CHR ''u''"
| "type_code TInt64 = CHR ''x''"
| "type_code TUInt64 = CHR ''t''"
| "type_code TDouble = CHR ''d''"
| "type_code TString = CHR ''s''"
| "type_code TObjectPath = CHR ''o''"
| "type_code TSignature = CHR ''g''"
| "type_code TUnixFD = CHR ''h''"

fun signature_of :: "dtype \<Rightarrow> string" where
  "signature_of (TPrim p) = [type_code p]"
| "signature_of TVariant = ''v''"
| "signature_of (TPair a b) = signature_of a @ signature_of b"
| "signature_of (TTuple ts) = concat (map signature_of ts)"
| "signature_of (TDBusStruct ts) = ''('' @ concat (map signature_of ts) @ '')''"
| "signature_of (TDictEntry k v) = ''{'' @ signature_of k @ signature_of v @ ''}''"
| "signature_of (TVector T) = ''a'' @ signature_of T"

text \<open>
  Modelled from the spec: \<open>DBusContainerSignatureTraits<T>::signature\<close>, the content
  signature an open marker carries: the element signature for an array, the
  concatenated field signatures for a struct, key then value for a dict-entry.
\<close>

fun container_signature :: "dtype \<Rightarrow> string" where
  "container_signature (TVector T) = signature_of T"
| "container_signature (TDBusStruct ts) = concat (map signature_of ts)"
| "container_signature (TDictEntry k v) = signature_of k @ signature_of v"
| "container_signature T = signature_of T"

section \<open>Container markers and the Message stream\<close>

text \<open>\<open>Container::Type\<close> (message.h:262) and \<open>class Container\<close> (message.h:260-273).\<close>

datatype ContainerType = CT_Array | CT_DictEntry | CT_Struct | CT_Variant

record Container =
  c_type :: ContainerType
  c_content :: string

text \<open>
  Modelled from the spec: \<open>MessagePrivate\<close> and the bodies of the primitive and
  marker operators are in message.cpp, which is not part of the sources. After the
  spec's data model, a Message is an ordered sequence of wire values and container
  markers, a read cursor and a sticky validity flag (\<open>operator bool\<close>).
\<close>

datatype wire = WValue prim | WOpen ContainerType string | WClose

record Message =
  stream :: "wire list"
  cursor :: nat
  valid :: bool

definition new_message :: Message where
  "new_message = \<lparr>stream = [], cursor = 0, valid = True\<rparr>"

definition fail :: "Message \<Rightarrow> Message" where
  "fail m = m\<lparr>valid := False\<rparr>"

text \<open>
  Modelled from the spec: the primitive write operators (message.h:344-358) append
  exactly one wire value and fail only when the Message is already Invalid.
\<close>

definition write_prim :: "Message \<Rightarrow> prim \<Rightarrow> Message" where
  "write_prim m p = (if \<not> valid m then m else m\<lparr>stream := stream m @ [WValue p]\<rparr>)"

text \<open>
  Modelled from the spec: the primitive read operators (message.h:437-449) consume
  exactly one wire value of the matching kind into the target; they fail, leaving
  the target alone, when the Message is Invalid, at the end of the stream, or when
  the next wire value has another type code.
\<close>

definition read_prim :: "Message \<Rightarrow> prim \<Rightarrow> Message \<times> prim" where
  "read_prim m tgt =
     (if \<not> valid m then (m, tgt)
      else case drop (cursor m) (stream m) of
             WValue p # rest \<Rightarrow>
               if ptype_of p = ptype_of tgt then (m\<lparr>cursor := cursor m + 1\<rparr>, p)
               else (fail m, tgt)
           | _ \<Rightarrow> (fail m, tgt))"

text \<open>
  Modelled from the spec: \<open>operator<<(const Container &)\<close> appends an open marker
  (failure if Invalid); \<open>operator>>(const Container &)\<close> consumes an open marker and
  checks its kind and content signature (failure on mismatch or premature end).
\<close>

definition write_container :: "Message \<Rightarrow> Container \<Rightarrow> Message" where
  "write_container m c =
     (if \<not> valid m then m
      else m\<lparr>stream := stream m @ [WOpen (c_type c) (c_content c)]\<rparr>)"

definition read_container :: "Message \<Rightarrow> Container \<Rightarrow> Message" where
  "read_container m c =
     (if \<not> valid m then m
      else case drop (cursor m) (stream m) of
             WOpen t s # rest \<Rightarrow>
               if t = c_type c \<and> s = c_content c then m\<lparr>cursor := cursor m + 1\<rparr>
               else fail m
           | _ \<Rightarrow> fail m)"

text \<open>
  Modelled from the spec: \<open>operator<<(const ContainerEnd &)\<close> appends the close
  marker, \<open>operator>>(const ContainerEnd &)\<close> consumes it. The spec leaves a close
  with no open container undefined; here a read that does not find the close marker
  at the cursor fails (section 4.1: a container close that fails makes the Message
  Invalid).
\<close>

definition write_end :: "Message \<Rightarrow> Message" where
  "write_end m = (if \<not> valid m then m else m\<lparr>stream := stream m @ [WClose]\<rparr>)"

definition read_end :: "Message \<Rightarrow> Message" where
  "read_end m =
     (if \<not> valid m then m
      else case drop (cursor m) (stream m) of
             WClose # rest \<Rightarrow> m\<lparr>cursor := cursor m + 1\<rparr>
           | _ \<Rightarrow> fail m)"

text \<open>
  Modelled from the spec: \<open>Message::end()\<close> (message.h:338) reports whether the
  cursor has reached the close of the innermost open container, or the overall end.
\<close>

definition at_end :: "Message \<Rightarrow> bool" where
  "at_end m = (case drop (cursor m) (stream m) of [] \<Rightarrow> True | WClose # rest \<Rightarrow> True | _ \<Rightarrow> False)"

section \<open>Encoding: operator<< and TupleMarshaller::marshall\<close>

text \<open>
  \<open>write_val\<close> is \<open>Message::operator<<\<close>: one equation per overload.
  \<^item> pair: message.h:363-374, with its two validity guards;
  \<^item> tuple: message.h:376-380;
  \<^item> DBusStruct: message.h:382-397;
  \<^item> DictEntry: message.h:399-419;
  \<^item> vector: message.h:421-435, the range-for loop as a left fold.
  \<open>marshall N t\<close> is \<open>TupleMarshaller<Tuple, N>::marshall\<close> (message.h:279-303), with
  its specialisations for 1 and 0. \<open>std::get<N - 1>(t)\<close> only compiles for
  \<open>N \<le> tuple_size\<close>; the index tests stand for that compile-time check, and every
  caller passes \<open>N = sizeof...(Args)\<close>, the length of the field list.

  \<open>serialize\<close> is \<open>VariantHelper<Value>::serialize\<close> (message.h:93-96), \<open>msg << *s\<close>.
  Dereferencing a null payload there is undefined behaviour in C++; the model
  leaves the message as it is, and the theorems about \<open>write_val\<close> on arbitrary
  values exclude such variants (\<open>derefs_ok\<close> below).

  Modelled from the spec: \<open>operator<<(const Variant &)\<close> and
  \<open>Variant::writeToMessage\<close> are defined in message.cpp, not part of the sources.
  After the spec: an operator that executes while Invalid is a no-op; otherwise
  write the payload's signature as a signature value, then delegate to the encode
  capability of the bound operations table; an unbound (empty) Variant serializes
  nothing.
\<close>

function (sequential) write_val :: "Message \<Rightarrow> dval \<Rightarrow> Message"
  and marshall :: "nat \<Rightarrow> dval list \<Rightarrow> Message \<Rightarrow> Message"
  and writeToMessage :: "Variant \<Rightarrow> Message \<Rightarrow> Message"
  and serialize :: "dtype \<Rightarrow> Message \<Rightarrow> dval option \<Rightarrow> Message"
where
  "write_val m (VPrim p) = write_prim m p"
| "write_val m (VVariant v) =
     (if \<not> valid m then m
      else writeToMessage v (write_prim m (PSignature (m_signature v))))"
| "write_val m (VPair a b) =
     (if \<not> valid m then m
      else let m1 = write_val m a in
        if \<not> valid m1 then m1 else write_val m1 b)"
| "write_val m (VTuple t) = marshall (length t) t m"
| "write_val m (VDBusStruct t) =
     (let m1 = write_container m
                 \<lparr>c_type = CT_Struct,
                  c_content = container_signature (TDBusStruct (map type_of t))\<rparr>
      in if valid m1
         then (let m2 = marshall (length t) t m1
               in if valid m2 then write_end m2 else m2)
         else m1)"
| "write_val m (VDictEntry k v) =
     (let m1 = write_container m
                 \<lparr>c_type = CT_DictEntry,
                  c_content = container_signature (TDictEntry (type_of k) (type_of v))\<rparr>
      in if valid m1
         then (let m2 = write_val m1 k in
               if \<not> valid m2 then m2
               else let m3 = write_val m2 v in
                 if \<not> valid m3 then m3
                 else if valid m3 then write_end m3 else m3)
         else m1)"
| "write_val m (VVector T xs) =
     (let m1 = write_container m
                 \<lparr>c_type = CT_Array, c_content = container_signature (TVector T)\<rparr>
      in if valid m1 then write_end (foldl write_val m1 xs) else m1)"
| "marshall 0 t m = m"
| "marshall (Suc 0) t m = (if 0 < length t then write_val m (t ! 0) else m)"
| "marshall (Suc (Suc n)) t m =
     (let m1 = marshall (Suc n) t m
      in if Suc n < length t then write_val m1 (t ! Suc n) else m1)"
| "writeToMessage (Variant s d h) m = (case h of None \<Rightarrow> m | Some T \<Rightarrow> serialize T m d)"
| "serialize T m None = m"
| "serialize T m (Some d) = write_val m d"
  by pat_completeness auto

lemma size_list_member: "x \<in> set xs \<Longrightarrow> size (x::dval) < size_list size xs"
  by (induction xs) auto

lemma size_list_nth: "n < length t \<Longrightarrow> size ((t ! n)::dval) < size_list size t"
  by (simp add: size_list_member)

termination write_val
proof (relation "inv_image (less_than <*lex*> less_than)
      (\<lambda>x. case x of
          Inl (Inl (m, v)) \<Rightarrow> (size v, 0)
        | Inl (Inr (n, t, m)) \<Rightarrow> (size_list size t, Suc n)
        | Inr (Inl (v, m)) \<Rightarrow> (size v, 0)
        | Inr (Inr (T, m, d)) \<Rightarrow> (size_option size d, 0))")
qed (auto simp: less_Suc_eq size_list_member size_list_nth)

section \<open>VariantHelper, the type registry and Variant::setRawData\<close>

text \<open>
  \<open>copy_val\<close> is copy construction of a value (\<open>std::make_shared<Value>(*s)\<close>,
  message.h:89): member-wise, and for a nested Variant its copy constructor
  (message.h:147-151), which keeps signature and helper and, when a helper is bound,
  takes the payload from \<open>helper_->copy(v.data_.get())\<close>. \<open>copy\<close> is
  \<open>VariantHelper<Value>::copy\<close> (message.h:86-92): a copy of the source when the
  pointer is not null, a value-initialised \<open>Value\<close> otherwise.
\<close>

fun copy_val :: "dval \<Rightarrow> dval"
  and Variant_copy :: "Variant \<Rightarrow> Variant"
  and copy :: "dtype \<Rightarrow> dval option \<Rightarrow> dval"
where
  "copy_val (VPrim p) = VPrim p"
| "copy_val (VPair a b) = VPair (copy_val a) (copy_val b)"
| "copy_val (VTuple t) = VTuple (map copy_val t)"
| "copy_val (VDBusStruct t) = VDBusStruct (map copy_val t)"
| "copy_val (VDictEntry k v) = VDictEntry (copy_val k) (copy_val v)"
| "copy_val (VVector T xs) = VVector T (map copy_val xs)"
| "copy_val (VVariant v) = VVariant (Variant_copy v)"
| "Variant_copy (Variant s d h) =
     (case h of
        None \<Rightarrow> Variant s None h
      | Some T \<Rightarrow> Variant s (Some (copy T d)) h)"
| "copy T (Some s) = copy_val s"
| "copy T None = default_val T"

text \<open>
  \<open>settled v\<close>: every Variant inside \<open>v\<close> has a payload exactly when it has a
  helper. The copy constructor leaves such a Variant as it is; of another it drops
  the payload that has no helper and value-initialises the one that is missing.
\<close>

fun settled :: "dval \<Rightarrow> bool"
  and settled_Variant :: "Variant \<Rightarrow> bool"
where
  "settled (VPrim p) = True"
| "settled (VPair a b) = (settled a \<and> settled b)"
| "settled (VTuple t) = list_all settled t"
| "settled (VDBusStruct t) = list_all settled t"
| "settled (VDictEntry k v) = (settled k \<and> settled v)"
| "settled (VVector T xs) = list_all settled xs"
| "settled (VVariant v) = settled_Variant v"
| "settled_Variant (Variant s d h) =
     (case h of
        None \<Rightarrow> (case d of None \<Rightarrow> True | Some x \<Rightarrow> False)
      | Some T \<Rightarrow> (case d of None \<Rightarrow> False | Some x \<Rightarrow> settled x))"

text \<open>
  \<open>Variant::setRawData\<close> (message.h:176-183): payload and helper are stored; the
  signature is replaced by \<open>helper->signature()\<close> (message.h:105-107) only when the
  helper is not null.
\<close>

definition setRawData :: "Variant \<Rightarrow> dval option \<Rightarrow> dtype option \<Rightarrow> Variant" where
  "setRawData v data helper =
     (case helper of
        None \<Rightarrow> Variant (m_signature v) data None
      | Some T \<Rightarrow> Variant (signature_of T) data (Some T))"

text \<open>
  Modelled from the spec: \<open>VariantTypeRegistry::lookupType\<close> and \<open>registerTypeImpl\<close>
  (message.h:128-133) are defined in message.cpp, not part of the sources. After the
  spec, the registry maps a signature to an operations table; a lookup returns the
  table or an empty result. \<open>registerType\<close> (message.h:117-126) stores
  \<open>VariantHelper<TypeName>\<close> under the signature of \<open>TypeName\<close>; its
  \<open>static_assert\<close> rejects, at compile time, a type other than the one its
  signature stands for, and is not part of the model.
\<close>

type_synonym VariantTypeRegistry = "string \<Rightarrow> dtype option"

definition lookupType :: "VariantTypeRegistry \<Rightarrow> string \<Rightarrow> dtype option" where
  "lookupType reg s = reg s"

definition registerType :: "VariantTypeRegistry \<Rightarrow> dtype \<Rightarrow> VariantTypeRegistry" where
  "registerType reg T = reg(signature_of T \<mapsto> T)"

section \<open>Decoding: operator>> and TupleMarshaller::unmarshall\<close>

text \<open>
  \<open>read_val k reg m tgt\<close> is \<open>m >> tgt\<close>: the target is passed with its current
  value, as the C++ reference is, and its shape selects the overload. The result is
  the Message and the target afterwards.
  \<^item> pair: message.h:454-465; tuple: message.h:467-471;
  \<^item> DBusStruct: message.h:473-488; DictEntry: message.h:490-510;
  \<^item> vector: message.h:512-527. \<open>read_loop\<close> is its \<open>while (!end() && *this >> temp)\<close>
    with the state \<open>(temp, t)\<close>; \<open>T temp\<close> is declared once, before the loop
    (for a scalar \<open>T\<close> it starts uninitialised in C++ and at the default value
    here; it is pushed only after a read that succeeded).
  \<open>unmarshall N t\<close> is \<open>TupleMarshaller<Tuple, N>::unmarshall\<close> (message.h:285-302);
  field \<open>N - 1\<close> is read into its value in \<open>t\<close>, which the reads of the fields
  before it have not touched. \<open>deserialize\<close> is \<open>VariantHelper<Value>::deserialize\<close>
  (message.h:97-100), \<open>msg >> *s\<close>.

  The loop of the vector overload need not end (an element whose decoding consumes
  nothing never reaches the boundary), and decoding a Variant re-enters
  \<open>operator>>\<close> at a type found in the registry. The fuel \<open>k\<close> bounds both: one unit
  for each loop iteration and each Variant payload; \<open>None\<close> is fuel exhausted.

  Modelled from the spec: \<open>operator>>(Variant &)\<close> is defined in message.cpp, not
  part of the sources. After the spec: read a signature value, look the signature
  up in the registry; if absent, fail; otherwise delegate to the decode capability
  and store the produced payload and signature into the target. The payload to
  decode into is the helper's \<open>copy(nullptr)\<close>, and it is stored with
  \<open>setRawData\<close>, the one member that takes a payload and a helper.
\<close>

definition read_signature :: "Message \<Rightarrow> Message \<times> string" where
  "read_signature m =
     (case read_prim m (PSignature []) of
        (m1, PSignature s) \<Rightarrow> (m1, s)
      | (m1, _) \<Rightarrow> (m1, []))"

function (sequential)
      read_val :: "nat \<Rightarrow> VariantTypeRegistry \<Rightarrow> Message \<Rightarrow> dval \<Rightarrow> (Message \<times> dval) option"
  and unmarshall :: "nat \<Rightarrow> VariantTypeRegistry \<Rightarrow> nat \<Rightarrow> dval list \<Rightarrow> Message
                       \<Rightarrow> (Message \<times> dval list) option"
  and read_loop :: "nat \<Rightarrow> VariantTypeRegistry \<Rightarrow> Message \<Rightarrow> dval \<Rightarrow> dval list
                       \<Rightarrow> (Message \<times> dval \<times> dval list) option"
  and deserialize :: "nat \<Rightarrow> VariantTypeRegistry \<Rightarrow> Message \<Rightarrow> dval \<Rightarrow> (Message \<times> dval) option"
where
  "read_val k reg m (VPrim p) = (case read_prim m p of (m1, p1) \<Rightarrow> Some (m1, VPrim p1))"
| "read_val k reg m (VVariant v) =
     (if \<not> valid m then Some (m, VVariant v)
      else case read_signature m of (m1, s) \<Rightarrow>
        if \<not> valid m1 then Some (m1, VVariant v)
        else case lookupType reg s of
               None \<Rightarrow> Some (fail m1, VVariant v)
             | Some T \<Rightarrow>
                 (case k of
                    0 \<Rightarrow> None
                  | Suc k' \<Rightarrow>
                      (case deserialize k' reg m1 (copy T None) of
                         None \<Rightarrow> None
                       | Some (m2, d) \<Rightarrow>
                           if valid m2
                           then Some (m2, VVariant (setRawData v (Some d) (Some T)))
                           else Some (m2, VVariant v))))"
| "read_val k reg m (VPair a b) =
     (if \<not> valid m then Some (m, VPair a b)
      else case read_val k reg m a of
             None \<Rightarrow> None
           | Some (m1, a1) \<Rightarrow>
               if \<not> valid m1 then Some (m1, VPair a1 b)
               else case read_val k reg m1 b of
                      None \<Rightarrow> None
                    | Some (m2, b1) \<Rightarrow> Some (m2, VPair a1 b1))"
| "read_val k reg m (VTuple t) =
     (case unmarshall k reg (length t) t m of
        None \<Rightarrow> None
      | Some (m1, t1) \<Rightarrow> Some (m1, VTuple t1))"
| "read_val k reg m (VDBusStruct t) =
     (let m1 = read_container m
                 \<lparr>c_type = CT_Struct,
                  c_content = container_signature (TDBusStruct (map type_of t))\<rparr>
      in if valid m1
         then (case unmarshall k reg (length t) t m1 of
                 None \<Rightarrow> None
               | Some (m2, t1) \<Rightarrow>
                   Some (if valid m2 then read_end m2 else m2, VDBusStruct t1))
         else Some (m1, VDBusStruct t))"
| "read_val k reg m (VDictEntry key val) =
     (let m1 = read_container m
                 \<lparr>c_type = CT_DictEntry,
                  c_content = container_signature (TDictEntry (type_of key) (type_of val))\<rparr>
      in if valid m1
         then (case read_val k reg m1 key of
                 None \<Rightarrow> None
               | Some (m2, key1) \<Rightarrow>
                   (if \<not> valid m2 then Some (m2, VDictEntry key1 val)
                    else (case read_val k reg m2 val of
                            None \<Rightarrow> None
                          | Some (m3, val1) \<Rightarrow>
                              (if \<not> valid m3 then Some (m3, VDictEntry key1 val1)
                               else Some (if valid m3 then read_end m3 else m3,
                                          VDictEntry key1 val1)))))
         else Some (m1, VDictEntry key val))"
| "read_val k reg m (VVector T t) =
     (let m1 = read_container m
                 \<lparr>c_type = CT_Array, c_content = container_signature (TVector T)\<rparr>
      in if valid m1
         then (case read_loop k reg m1 (default_val T) t of
                 None \<Rightarrow> None
               | Some (m2, temp, t1) \<Rightarrow> Some (read_end m2, VVector T t1))
         else Some (m1, VVector T t))"
| "unmarshall k reg 0 t m = Some (m, t)"
| "unmarshall k reg (Suc 0) t m =
     (if 0 < length t
      then (case read_val k reg m (t ! 0) of
              None \<Rightarrow> None
            | Some (m1, x) \<Rightarrow> Some (m1, t[0 := x]))
      else Some (m, t))"
| "unmarshall k reg (Suc (Suc n)) t m =
     (case unmarshall k reg (Suc n) t m of
        None \<Rightarrow> None
      | Some (m1, t1) \<Rightarrow>
          if Suc n < length t
          then (case read_val k reg m1 (t ! Suc n) of
                  None \<Rightarrow> None
                | Some (m2, x) \<Rightarrow> Some (m2, t1[Suc n := x]))
          else Some (m1, t1))"
| "read_loop k reg m temp t =
     (if at_end m then Some (m, temp, t)
      else case k of
             0 \<Rightarrow> None
           | Suc k' \<Rightarrow>
               (case read_val k' reg m temp of
                  None \<Rightarrow> None
                | Some (m1, temp1) \<Rightarrow>
                    if valid m1 then read_loop k' reg m1 temp1 (t @ [temp1])
                    else Some (m1, temp1, t)))"
| "deserialize k reg m d = read_val k reg m d"
  by pat_completeness auto

termination read_val
proof (relation "inv_image (less_than <*lex*> less_than <*lex*> less_than)
      (\<lambda>x. case x of
          Inl (Inl (k, reg, m, v)) \<Rightarrow> (k, Suc (size v), 0)
        | Inl (Inr (k, reg, n, t, m)) \<Rightarrow> (k, Suc (size_list size t), Suc n)
        | Inr (Inl (k, reg, m, temp, t)) \<Rightarrow> (k, 0, 0)
        | Inr (Inr (k, reg, m, d)) \<Rightarrow> (k, Suc (Suc (size d)), 0))")
qed (auto simp: size_list_member size_list_nth)

text \<open>
  \<open>derefs_ok v\<close>: every Variant inside \<open>v\<close> that has a helper bound also has a
  payload, so that \<open>serialize\<close> and \<open>print\<close> never dereference a null pointer.
\<close>

fun derefs_ok :: "dval \<Rightarrow> bool"
  and derefs_ok_Variant :: "Variant \<Rightarrow> bool"
where
  "derefs_ok (VPrim p) = True"
| "derefs_ok (VPair a b) = (derefs_ok a \<and> derefs_ok b)"
| "derefs_ok (VTuple t) = list_all derefs_ok t"
| "derefs_ok (VDBusStruct t) = list_all derefs_ok t"
| "derefs_ok (VDictEntry k v) = (derefs_ok k \<and> derefs_ok v)"
| "derefs_ok (VVector T xs) = list_all derefs_ok xs"
| "derefs_ok (VVariant v) = derefs_ok_Variant v"
| "derefs_ok_Variant (Variant s d h) =
     (case h of
        None \<Rightarrow> True
      | Some T \<Rightarrow> (case d of None \<Rightarrow> False | Some x \<Rightarrow> derefs_ok x))"

text \<open>The wire values that encoding \<open>v\<close> into a fresh Message produces.\<close>

definition encoded :: "dval \<Rightarrow> wire list" where
  "encoded v = stream (write_val new_message v)"

text \<open>
  The spec's wording of the tuple marshaller, to compare \<open>unmarshall\<close> with: the
  fields are decoded one after the other in declared order, each into its own
  target, on the Message the field before it left.
\<close>

fun read_fields :: "nat \<Rightarrow> VariantTypeRegistry \<Rightarrow> Message \<Rightarrow> dval list
                      \<Rightarrow> (Message \<times> dval list) option" where
  "read_fields k reg m [] = Some (m, [])"
| "read_fields k reg m (f # fs) =
     (case read_val k reg m f of
        None \<Rightarrow> None
      | Some (m1, f1) \<Rightarrow>
          (case read_fields k reg m1 fs of
             None \<Rightarrow> None
           | Some (m2, fs1) \<Rightarrow> Some (m2, f1 # fs1)))"

text \<open>
  Modelled from the spec: \<open>Message::signature()\<close> (message.h:326) is defined in
  message.cpp, not part of the sources. It is the signature string of the
  Message's content: the signatures of its top-level values in order, a container
  counting once, by its open marker. \<open>d\<close> is the number of containers open at the
  head of the list.
\<close>

fun marker_signature :: "ContainerType \<Rightarrow> string \<Rightarrow> string" where
  "marker_signature CT_Array s = ''a'' @ s"
| "marker_signature CT_Struct s = ''('' @ s @ '')''"
| "marker_signature CT_DictEntry s = ''{'' @ s @ ''}''"
| "marker_signature CT_Variant s = ''v''"

fun stream_signature :: "nat \<Rightarrow> wire list \<Rightarrow> string" where
  "stream_signature d [] = []"
| "stream_signature d (WValue p # ws) =
     (if d = 0 then [type_code (ptype_of p)] else []) @ stream_signature d ws"
| "stream_signature d (WOpen t s # ws) =
     (if d = 0 then marker_signature t s else []) @ stream_signature (Suc d) ws"
| "stream_signature d (WClose # ws) = stream_signature (d - 1) ws"

section \<open>class Variant\<close>

text \<open>
  \<open>Variant() = default\<close> (message.h:141). Copy assignment (message.h:154-161) takes
  signature and helper from the source and replaces the payload only when that
  helper is not null. Move assignment (message.h:162) is defaulted: it takes the
  three members of the source. The source of a move is left with both pointers null
  and its signature string in a valid but unspecified state: \<open>moved_from s\<close>, with
  \<open>s\<close> that string.
\<close>

definition Variant_default :: Variant where
  "Variant_default = Variant [] None None"

definition Variant_assign :: "Variant \<Rightarrow> Variant \<Rightarrow> Variant" where
  "Variant_assign this v =
     Variant (m_signature v)
       (case m_helper v of
          None \<Rightarrow> m_data this
        | Some T \<Rightarrow> Some (copy T (m_data v)))
       (m_helper v)"

definition Variant_move_assign :: "Variant \<Rightarrow> Variant \<Rightarrow> Variant" where
  "Variant_move_assign this v = Variant (m_signature v) (m_data v) (m_helper v)"

definition moved_from :: "string \<Rightarrow> Variant" where
  "moved_from s = Variant s None None"

text \<open>
  \<open>setData\<close> is an overload set, selected by the type and the value category of the
  argument; \<open>arg\<close> is the argument with its category, \<open>Lvalue x\<close> binding to
  \<open>const Value &\<close> and \<open>Rvalue x\<close> to \<open>Value &&\<close>.
  \<^item> \<open>setData(const Variant &)\<close> (message.h:170) is copy assignment;
  \<^item> \<open>setData(Variant &&)\<close> (message.h:172) is move assignment;
  \<^item> the template (message.h:164-168, 534-540), disabled for a Variant argument,
    stores the signature of the value's type, a new payload
    \<open>std::make_shared<value_type>(std::forward<Value>(value))\<close> and a new
    \<open>VariantHelper<value_type>\<close>. The payload is copy-constructed from an lvalue
    and move-constructed from an rvalue; move construction hands the value over as
    it is (a Variant inside it keeps its payload pointer and its helper,
    message.h:153);
  \<^item> \<open>setData(const char *)\<close> (message.h:174) passes a temporary \<open>std::string\<close>.
  The converting constructor (message.h:142-145) forwards its argument to \<open>setData\<close>
  on the object under construction, whose members start empty. \<open>Variant_of x\<close> is
  that constructor applied to a named value.
\<close>

datatype arg = Lvalue dval | Rvalue dval

fun setData :: "Variant \<Rightarrow> arg \<Rightarrow> Variant" where
  "setData this (Lvalue (VVariant v)) = Variant_assign this v"
| "setData this (Rvalue (VVariant v)) = Variant_move_assign this v"
| "setData this (Lvalue x) =
     Variant (signature_of (type_of x)) (Some (copy_val x)) (Some (type_of x))"
| "setData this (Rvalue x) =
     Variant (signature_of (type_of x)) (Some x) (Some (type_of x))"

definition setData_cstr :: "Variant \<Rightarrow> string \<Rightarrow> Variant" where
  "setData_cstr this str = setData this (Rvalue (VPrim (PString str)))"

definition Variant_ctor :: "arg \<Rightarrow> Variant" where
  "Variant_ctor a = setData Variant_default a"

definition Variant_of :: "dval \<Rightarrow> Variant" where
  "Variant_of x = Variant_ctor (Lvalue x)"

text \<open>
  The property of the spec's data model: the dynamic type of the payload is the
  type the signature names. A Variant without payload has no dynamic type to
  compare. \<open>helper_matches\<close> is the same for the helper: the signature is the one
  of the type the bound helper handles.
\<close>

definition payload_matches :: "Variant \<Rightarrow> bool" where
  "payload_matches v =
     (case m_data v of
        None \<Rightarrow> True
      | Some d \<Rightarrow> m_signature v = signature_of (type_of d))"

definition helper_matches :: "Variant \<Rightarrow> bool" where
  "helper_matches v =
     (case m_helper v of
        None \<Rightarrow> True
      | Some T \<Rightarrow> m_signature v = signature_of T)"

text \<open>
  The history of a Variant object: how it was constructed and the operations applied
  to it since, the source of a copy or of a move being given by its own history.
  \<open>Variant_after h\<close> is the object after \<open>h\<close>; the move constructor (message.h:153)
  is defaulted and takes the members of its source, and \<open>Then_moved_from h left\<close> is
  an object that was the source of a move, its signature string left as \<open>left\<close>.
  \<open>values_only h\<close>: the arguments of the converting constructor and of the
  template \<open>setData\<close> are not Variants (message.h:165-167; with a Variant argument
  the two are copy or move construction and assignment). \<open>guarded h\<close>: each
  \<open>setRawData\<close> of the history passes a null payload, or a payload together with
  the helper of its type, and each copy assignment has a source with a helper bound
  or a target without payload.
\<close>

datatype history =
    Default_ctor
  | Value_ctor arg
  | Copy_ctor history
  | Move_ctor history
  | Then_setData history arg
  | Then_setRawData history "dval option" "dtype option"
  | Then_assign history history
  | Then_move_assign history history
  | Then_moved_from history string

fun Variant_after :: "history \<Rightarrow> Variant" where
  "Variant_after Default_ctor = Variant_default"
| "Variant_after (Value_ctor a) = Variant_ctor a"
| "Variant_after (Copy_ctor s) = Variant_copy (Variant_after s)"
| "Variant_after (Move_ctor s) = Variant_after s"
| "Variant_after (Then_setData h a) = setData (Variant_after h) a"
| "Variant_after (Then_setRawData h d helper) = setRawData (Variant_after h) d helper"
| "Variant_after (Then_assign h s) = Variant_assign (Variant_after h) (Variant_after s)"
| "Variant_after (Then_move_assign h s) = Variant_move_assign (Variant_after h) (Variant_after s)"
| "Variant_after (Then_moved_from h left) = moved_from left"

fun is_value :: "arg \<Rightarrow> bool" where
  "is_value (Lvalue x) = (type_of x \<noteq> TVariant)"
| "is_value (Rvalue x) = (type_of x \<noteq> TVariant)"

fun values_only :: "history \<Rightarrow> bool" where
  "values_only Default_ctor = True"
| "values_only (Value_ctor a) = is_value a"
| "values_only (Copy_ctor s) = values_only s"
| "values_only (Move_ctor s) = values_only s"
| "values_only (Then_setData h a) = (values_only h \<and> is_value a)"
| "values_only (Then_setRawData h d helper) = values_only h"
| "values_only (Then_assign h s) = (values_only h \<and> values_only s)"
| "values_only (Then_move_assign h s) = (values_only h \<and> values_only s)"
| "values_only (Then_moved_from h left) = values_only h"

fun guarded :: "history \<Rightarrow> bool" where
  "guarded Default_ctor = True"
| "guarded (Value_ctor a) = True"
| "guarded (Copy_ctor s) = guarded s"
| "guarded (Move_ctor s) = guarded s"
| "guarded (Then_setData h a) = guarded h"
| "guarded (Then_setRawData h d helper) =
     (guarded h \<and> (case d of None \<Rightarrow> True | Some x \<Rightarrow> helper = Some (type_of x)))"
| "guarded (Then_assign h s) =
     (guarded h \<and> guarded s
      \<and> (case m_helper (Variant_after s) of
            None \<Rightarrow> (case m_data (Variant_after h) of None \<Rightarrow> True | Some x \<Rightarrow> False)
          | Some T \<Rightarrow> True))"
| "guarded (Then_move_assign h s) = (guarded h \<and> guarded s)"
| "guarded (Then_moved_from h left) = guarded h"

subsection \<open>The payload pointer of one Variant\<close>

text \<open>
  The payload pointer \<open>data_\<close> of a Variant object as an address into a store of
  payload cells. \<open>std::make_shared\<close> allocates a cell no pointer refers to yet: the
  store grows at its end. Here a payload cell holds a value, Variants nested inside
  it kept by value, as \<open>copy_val\<close> produces them; the store of the next subsection
  keeps their pointers too. \<open>copy_ptr\<close> is \<open>VariantHelper<Value>::copy\<close>
  (message.h:86-92), \<open>Variant_copy_ctor\<close> the copy constructor (message.h:147-151;
  the member \<open>data_\<close> starts null).
\<close>

record VariantObj =
  o_signature :: string
  o_data :: "nat option"
  o_helper :: "dtype option"

type_synonym store = "dval list"

definition make_shared :: "'a list \<Rightarrow> 'a \<Rightarrow> 'a list \<times> nat" where
  "make_shared h x = (h @ [x], length h)"

definition copy_ptr :: "store \<Rightarrow> dtype \<Rightarrow> nat option \<Rightarrow> store \<times> nat" where
  "copy_ptr h T src =
     (case src of
        Some a \<Rightarrow> make_shared h (copy_val (h ! a))
      | None \<Rightarrow> make_shared h (default_val T))"

definition Variant_copy_ctor :: "store \<Rightarrow> VariantObj \<Rightarrow> store \<times> VariantObj" where
  "Variant_copy_ctor h v =
     (case o_helper v of
        None \<Rightarrow> (h, \<lparr>o_signature = o_signature v, o_data = None, o_helper = None\<rparr>)
      | Some T \<Rightarrow>
          (case copy_ptr h T (o_data v) of
             (h1, a) \<Rightarrow>
               (h1, \<lparr>o_signature = o_signature v, o_data = Some a, o_helper = Some T\<rparr>)))"

text \<open>The Variant value an object stands for: its payload pointer followed.\<close>

definition deref :: "store \<Rightarrow> VariantObj \<Rightarrow> Variant" where
  "deref h v = Variant (o_signature v) (map_option (\<lambda>a. h ! a) (o_data v)) (o_helper v)"

subsection \<open>Payload ownership: every payload pointer in a store\<close>











section \<open>Formatting a Variant\<close>

text \<open>
  A \<open>LogMessageBuilder\<close> is the text written so far; each function returns the text
  it appends. \<open>lg\<close> stands for the \<open>operator<<\<close> overloads of log.h (built-in types,
  strings, vectors, tuples, pairs), which is not part of the sources. The overloads
  of message.h are: DictEntry (message.h:542-547), DBusStruct (message.h:549-554),
  Signature (message.h:556-560), ObjectPath (message.h:562-566) and Variant
  (message.h:568-574), which prints the frame and calls \<open>Variant::printData\<close>
  (message.h:195-199); \<open>print\<close> is \<open>VariantHelper<Value>::print\<close> (message.h:101-104),
  \<open>builder << *s\<close>, where a null payload is undefined behaviour (the model appends
  nothing).
\<close>

fun log_val :: "(dval \<Rightarrow> string) \<Rightarrow> dval \<Rightarrow> string"
  and printData :: "(dval \<Rightarrow> string) \<Rightarrow> Variant \<Rightarrow> string"
  and print :: "(dval \<Rightarrow> string) \<Rightarrow> dtype \<Rightarrow> dval option \<Rightarrow> string"
where
  "log_val lg (VDictEntry k v) = ''('' @ log_val lg k @ '', '' @ log_val lg v @ '')''"
| "log_val lg (VDBusStruct t) = lg (VTuple t)"
| "log_val lg (VPrim (PSignature s)) = ''Signature('' @ s @ '')''"
| "log_val lg (VPrim (PObjectPath p)) = ''ObjectPath('' @ p @ '')''"
| "log_val lg (VVariant var) =
     ''Variant(sig='' @ m_signature var @ '', content='' @ printData lg var @ '')''"
| "log_val lg x = lg x"
| "printData lg (Variant s d h) = (case h of None \<Rightarrow> [] | Some T \<Rightarrow> print lg T d)"
| "print lg T (Some d) = log_val lg d"
| "print lg T None = []"

text \<open>
  Modelled from the spec: the \<open>LogMessageBuilder\<close> overloads for the built-in types
  are in log.h, not part of the sources. After the spec's scenario 4 an unsigned
  integer is printed in decimal; \<open>log_unsigned\<close> is that part of log.h, used to
  instantiate \<open>lg\<close>.
\<close>

fun decimal :: "nat \<Rightarrow> string" where
  "decimal n = (if n < 10 then [''0123456789'' ! n]
                else decimal (n div 10) @ [''0123456789'' ! (n mod 10)])"

definition log_unsigned :: "dval \<Rightarrow> string" where
  "log_unsigned x =
     (case x of
        VPrim (PUInt8 w) \<Rightarrow> decimal (unat w)
      | VPrim (PUInt16 w) \<Rightarrow> decimal (unat w)
      | VPrim (PUInt32 w) \<Rightarrow> decimal (unat w)
      | VPrim (PUInt64 w) \<Rightarrow> decimal (unat w)
      | _ \<Rightarrow> [])"

declare decimal.simps [simp del]

section \<open>Auxiliary notions for the lemmas\<close>

text \<open>
  \<open>plain v\<close>: \<open>v\<close> contains neither a vector nor a Variant, so that decoding
  overwrites every part of its target. \<open>advance m n\<close> is \<open>m\<close> with the cursor moved
  \<open>n\<close> wire values on. \<open>decodes v\<close>: at a valid Message whose stream continues with
  the encoding of \<open>v\<close>, decoding into any target of the type of \<open>v\<close> returns \<open>v\<close>
  and moves the cursor past that encoding, with any fuel. \<open>appends f\<close>: on a valid
  Message \<open>f\<close> only appends to the stream, and what it appends does not depend on
  the Message. \<open>starts_ok ws\<close>: \<open>ws\<close> does not begin with a close marker.
\<close>

fun plain :: "dval \<Rightarrow> bool" where
  "plain (VPrim p) = True"
| "plain (VPair a b) = (plain a \<and> plain b)"
| "plain (VTuple t) = list_all plain t"
| "plain (VDBusStruct t) = list_all plain t"
| "plain (VDictEntry k v) = (plain k \<and> plain v)"
| "plain (VVector T xs) = False"
| "plain (VVariant v) = False"

definition advance :: "Message \<Rightarrow> nat \<Rightarrow> Message" where
  "advance m n = m\<lparr>cursor := cursor m + n\<rparr>"

definition decodes :: "dval \<Rightarrow> bool" where
  "decodes v = (\<forall>k reg m tgt rest.
      valid m \<longrightarrow> type_of tgt = type_of v \<longrightarrow>
      drop (cursor m) (stream m) = encoded v @ rest \<longrightarrow>
      read_val k reg m tgt = Some (advance m (length (encoded v)), v))"

definition appends :: "(Message \<Rightarrow> Message) \<Rightarrow> bool" where
  "appends f = (\<forall>m. valid m \<longrightarrow> f m = m\<lparr>stream := stream m @ stream (f new_message)\<rparr>)"

definition starts_ok :: "wire list \<Rightarrow> bool" where
  "starts_ok ws = (case ws of [] \<Rightarrow> True | w # rest \<Rightarrow> w \<noteq> WClose)"



section \<open>Sticky failure\<close>

lemma write_prim_invalid: "\<not> valid m \<Longrightarrow> write_prim m p = m"
  by (simp add: write_prim_def)

lemma read_prim_invalid: "\<not> valid m \<Longrightarrow> read_prim m p = (m, p)"
  by (simp add: read_prim_def)

lemma write_container_invalid: "\<not> valid m \<Longrightarrow> write_container m c = m"
  by (simp add: write_container_def)

lemma read_container_invalid: "\<not> valid m \<Longrightarrow> read_container m c = m"
  by (simp add: read_container_def)

lemma write_end_invalid: "\<not> valid m \<Longrightarrow> write_end m = m"
  by (simp add: write_end_def)

lemma read_end_invalid: "\<not> valid m \<Longrightarrow> read_end m = m"
  by (simp add: read_end_def)

lemma foldl_invalid:
  "(\<And>x m. x \<in> set xs \<Longrightarrow> \<not> valid m \<Longrightarrow> f m x = m) \<Longrightarrow> \<not> valid m \<Longrightarrow> foldl f m xs = m"
  by (induction xs arbitrary: m) auto

lemma write_invalid_all:
  "\<not> valid m \<longrightarrow> write_val m v = m"
  "\<not> valid m' \<longrightarrow> marshall n t m' = m'"
  "\<not> valid m'' \<longrightarrow> writeToMessage var m'' = m''"
  "\<not> valid m''' \<longrightarrow> serialize T m''' d = m'''"
proof (induction m v and n t m' and var m'' and T m''' d
       rule: write_val_marshall_writeToMessage_serialize.induct)
  case (7 m T xs)
  then show ?case
    by (auto simp: write_container_invalid intro: foldl_invalid)
qed (auto simp: write_prim_invalid write_container_invalid write_end_invalid Let_def
          split: option.splits)

lemma read_invalid_all:
  "\<not> valid m \<longrightarrow> read_val k reg m v = Some (m, v)"
  "\<not> valid m' \<longrightarrow> unmarshall k' reg' n t m' = Some (m', t)"
  "True \<or> read_loop k'' reg'' m'' temp t'' = None"
  "\<not> valid m''' \<longrightarrow> deserialize k''' reg''' m''' d = Some (m''', d)"
proof (induction k reg m v and k' reg' n t m' and k'' reg'' m'' temp t''
         and k''' reg''' m''' d
       rule: read_val_unmarshall_read_loop_deserialize.induct)
qed (auto simp: read_prim_invalid read_container_invalid read_end_invalid Let_def
          split: option.splits)

lemma write_val_invalid: "\<not> valid m \<Longrightarrow> write_val m v = m"
  by (simp add: write_invalid_all)

lemma marshall_invalid: "\<not> valid m \<Longrightarrow> marshall n t m = m"
  by (simp add: write_invalid_all)

lemma read_val_invalid: "\<not> valid m \<Longrightarrow> read_val k reg m v = Some (m, v)"
  by (simp add: read_invalid_all)

lemma unmarshall_invalid: "\<not> valid m \<Longrightarrow> unmarshall k reg n t m = Some (m, t)"
  by (simp add: read_invalid_all)

text \<open>
  C1. Once a Message is Invalid, every operator is a no-op on it: the primitive
  and marker operators (as modelled from the spec), and every overload of
  \<open>operator<<\<close> and \<open>operator>>\<close> of message.h (pair, tuple, DBusStruct, DictEntry,
  vector, Variant) with the tuple marshaller, on every value and with any fuel. The
  Message returned is the Message given: still Invalid, with the same stream and the
  same cursor; a read leaves its target as it was.
\<close>

theorem sticky_failure:
  assumes "\<not> valid m"
  shows "write_prim m p = m \<and> read_prim m p = (m, p)
       \<and> write_container m c = m \<and> read_container m c = m
       \<and> write_end m = m \<and> read_end m = m
       \<and> write_val m v = m \<and> marshall n t m = m
       \<and> read_val k reg m v = Some (m, v)
       \<and> unmarshall k reg n t m = Some (m, t)"
  using assms
  by (simp add: write_prim_invalid read_prim_invalid write_container_invalid
        read_container_invalid write_end_invalid read_end_invalid write_val_invalid
        marshall_invalid read_val_invalid unmarshall_invalid)

theorem sticky_failure_witness:
  "\<not> valid \<lparr>stream = [WValue (PInt32 1)], cursor = 0, valid = False\<rparr>
   \<and> write_val \<lparr>stream = [WValue (PInt32 1)], cursor = 0, valid = False\<rparr>
        (VVector (TPrim TInt32) [VPrim (PInt32 2)])
      = \<lparr>stream = [WValue (PInt32 1)], cursor = 0, valid = False\<rparr>
   \<and> read_val 0 Map.empty \<lparr>stream = [WValue (PInt32 1)], cursor = 0, valid = False\<rparr>
        (VDBusStruct [VPrim (PInt32 0)])
      = Some (\<lparr>stream = [WValue (PInt32 1)], cursor = 0, valid = False\<rparr>,
              VDBusStruct [VPrim (PInt32 0)])"
proof -
  let ?m = "\<lparr>stream = [WValue (PInt32 1)], cursor = 0, valid = False\<rparr>"
  have inv: "\<not> valid ?m" by simp
  have w: "write_val ?m (VVector (TPrim TInt32) [VPrim (PInt32 2)]) = ?m"
    using sticky_failure [OF inv] by blast
  have r: "read_val 0 Map.empty ?m (VDBusStruct [VPrim (PInt32 0)])
             = Some (?m, VDBusStruct [VPrim (PInt32 0)])"
    using sticky_failure [OF inv] by blast
  show ?thesis using inv w r by simp
qed

section \<open>Encoding appends; the tuple marshaller keeps declared order\<close>

lemma marshall_Suc:
  "marshall (Suc n) t m =
     (let m1 = marshall n t m in if n < length t then write_val m1 (t ! n) else m1)"
  by (cases n) (simp_all add: Let_def)

lemma marshall_foldl_take: "n \<le> length t \<Longrightarrow> marshall n t m = foldl write_val m (take n t)"
proof (induction n)
  case 0
  show ?case by simp
next
  case (Suc n)
  then show ?case
    by (simp add: marshall_Suc take_Suc_conv_app_nth del: marshall.simps)
qed

lemma marshall_foldl: "marshall (length t) t m = foldl write_val m t"
  by (simp add: marshall_foldl_take)

lemma new_message_simps [simp]:
  "valid new_message" "stream new_message = []" "cursor new_message = 0"
  by (simp_all add: new_message_def)

lemma write_prim_valid: "valid m \<Longrightarrow> write_prim m p = m\<lparr>stream := stream m @ [WValue p]\<rparr>"
  by (simp add: write_prim_def)

lemma write_container_valid:
  "valid m \<Longrightarrow> write_container m c = m\<lparr>stream := stream m @ [WOpen (c_type c) (c_content c)]\<rparr>"
  by (simp add: write_container_def)

lemma write_end_valid: "valid m \<Longrightarrow> write_end m = m\<lparr>stream := stream m @ [WClose]\<rparr>"
  by (simp add: write_end_def)

lemma appendsD: "appends f \<Longrightarrow> valid m \<Longrightarrow> f m = m\<lparr>stream := stream m @ stream (f new_message)\<rparr>"
  unfolding appends_def by blast

lemma appends_comp: "appends f \<Longrightarrow> appends g \<Longrightarrow> appends (\<lambda>m. g (f m))"
  unfolding appends_def
proof (intro allI impI)
  fix m :: Message
  assume f: "\<forall>m. valid m \<longrightarrow> f m = m\<lparr>stream := stream m @ stream (f new_message)\<rparr>"
    and g: "\<forall>m. valid m \<longrightarrow> g m = m\<lparr>stream := stream m @ stream (g new_message)\<rparr>"
    and v: "valid m"
  have fm: "f m = m\<lparr>stream := stream m @ stream (f new_message)\<rparr>" using f v by blast
  have fn: "f new_message = new_message\<lparr>stream := stream new_message @ stream (f new_message)\<rparr>"
    by (rule f [rule_format]) simp
  have "valid (m\<lparr>stream := stream m @ stream (f new_message)\<rparr>)" by (simp add: v)
  then have vfm: "valid (f m)" by (simp only: fm [symmetric])
  have "valid (new_message\<lparr>stream := stream new_message @ stream (f new_message)\<rparr>)" by simp
  then have vfn: "valid (f new_message)" by (simp only: fn [symmetric])
  have "g (f m) = (f m)\<lparr>stream := stream (f m) @ stream (g new_message)\<rparr>" using g vfm by blast
  moreover have "g (f new_message) = (f new_message)\<lparr>stream := stream (f new_message) @ stream (g new_message)\<rparr>"
    using g vfn by blast
  ultimately show "g (f m) = m\<lparr>stream := stream m @ stream (g (f new_message))\<rparr>"
    using fm by simp
qed

lemma appends_id: "appends (\<lambda>m. m)"
  by (simp add: appends_def)

lemma appends_prim: "appends (\<lambda>m. write_prim m p)"
  by (simp add: appends_def write_prim_valid)

lemma appends_container: "appends (\<lambda>m. write_container m c)"
  by (simp add: appends_def write_container_valid)

lemma appends_end: "appends write_end"
  by (simp add: appends_def write_end_valid)

lemma appends_valid:
  assumes "appends f" "valid m"
  shows "valid (f m)"
proof -
  have "valid (m\<lparr>stream := stream m @ stream (f new_message)\<rparr>)" using assms(2) by simp
  then show ?thesis by (simp only: appendsD [OF assms, symmetric])
qed

lemma appends_foldl:
  "(\<And>x. x \<in> set xs \<Longrightarrow> appends (\<lambda>m. w m x)) \<Longrightarrow> appends (\<lambda>m. foldl w m xs)"
proof (induction xs rule: rev_induct)
  case Nil
  show ?case by (simp add: appends_id)
next
  case (snoc x xs)
  have "appends (\<lambda>m. w (foldl w m xs) x)"
    by (rule appends_comp [where g = "\<lambda>m. w m x"]) (simp_all add: snoc)
  then show ?case by simp
qed


lemma appends_cong:
  assumes eq: "\<And>m. valid m \<Longrightarrow> f m = g m" and g: "appends g"
  shows "appends f"
  unfolding appends_def
proof (intro allI impI)
  fix m :: Message
  assume v: "valid m"
  have "f m = g m" using v by (rule eq)
  also have "g m = m\<lparr>stream := stream m @ stream (g new_message)\<rparr>"
    using g v by (rule appendsD)
  also have "g new_message = f new_message" by (rule eq [symmetric]) simp
  finally show "f m = m\<lparr>stream := stream m @ stream (f new_message)\<rparr>" .
qed

lemma appends_pair:
  assumes a: "appends (\<lambda>m. write_val m a)" and b: "appends (\<lambda>m. write_val m b)"
  shows "appends (\<lambda>m. write_val m (VPair a b))"
proof (rule appends_cong [OF _ appends_comp [OF a b]])
  fix m :: Message
  assume "valid m"
  then show "write_val m (VPair a b) = write_val (write_val m a) b"
    using appends_valid [OF a] by (simp add: Let_def)
qed

lemma appends_tuple:
  assumes "\<And>x. x \<in> set t \<Longrightarrow> appends (\<lambda>m. write_val m x)"
  shows "appends (\<lambda>m. write_val m (VTuple t))"
  using appends_foldl [of t write_val, OF assms] by (simp add: marshall_foldl)

lemma appends_struct:
  assumes "\<And>x. x \<in> set t \<Longrightarrow> appends (\<lambda>m. write_val m x)"
  shows "appends (\<lambda>m. write_val m (VDBusStruct t))"
proof -
  let ?c = "\<lparr>c_type = CT_Struct, c_content = container_signature (TDBusStruct (map type_of t))\<rparr>"
  have fl: "appends (\<lambda>m. foldl write_val m t)"
    by (rule appends_foldl) (rule assms)
  have oc: "appends (\<lambda>m. foldl write_val (write_container m ?c) t)"
    by (rule appends_comp [OF appends_container fl])
  have all: "appends (\<lambda>m. write_end (foldl write_val (write_container m ?c) t))"
    by (rule appends_comp [OF oc appends_end])
  show ?thesis
  proof (rule appends_cong [OF _ all])
    fix m :: Message
    assume v: "valid m"
    have v1: "valid (write_container m ?c)" by (rule appends_valid [OF appends_container v])
    have v2: "valid (foldl write_val (write_container m ?c) t)" by (rule appends_valid [OF oc v])
    show "write_val m (VDBusStruct t) = write_end (foldl write_val (write_container m ?c) t)"
      using v1 v2 by (simp add: Let_def marshall_foldl del: container_signature.simps)
  qed
qed

lemma appends_dictentry:
  assumes a: "appends (\<lambda>m. write_val m k)" and b: "appends (\<lambda>m. write_val m v)"
  shows "appends (\<lambda>m. write_val m (VDictEntry k v))"
proof -
  let ?c = "\<lparr>c_type = CT_DictEntry,
             c_content = container_signature (TDictEntry (type_of k) (type_of v))\<rparr>"
  have ok: "appends (\<lambda>m. write_val (write_container m ?c) k)"
    by (rule appends_comp [OF appends_container a])
  have okv: "appends (\<lambda>m. write_val (write_val (write_container m ?c) k) v)"
    by (rule appends_comp [OF ok b])
  have all: "appends (\<lambda>m. write_end (write_val (write_val (write_container m ?c) k) v))"
    by (rule appends_comp [OF okv appends_end])
  show ?thesis
  proof (rule appends_cong [OF _ all])
    fix m :: Message
    assume v: "valid m"
    have v1: "valid (write_container m ?c)" by (rule appends_valid [OF appends_container v])
    have v2: "valid (write_val (write_container m ?c) k)" by (rule appends_valid [OF ok v])
    have v3: "valid (write_val (write_val (write_container m ?c) k) v)"
      by (rule appends_valid [OF okv v])
    show "write_val m (VDictEntry k v)
            = write_end (write_val (write_val (write_container m ?c) k) v)"
      using v1 v2 v3 by (simp add: Let_def del: container_signature.simps)
  qed
qed

lemma appends_vector:
  assumes "\<And>x. x \<in> set xs \<Longrightarrow> appends (\<lambda>m. write_val m x)"
  shows "appends (\<lambda>m. write_val m (VVector T xs))"
proof -
  let ?c = "\<lparr>c_type = CT_Array, c_content = container_signature (TVector T)\<rparr>"
  have fl: "appends (\<lambda>m. foldl write_val m xs)"
    by (rule appends_foldl) (rule assms)
  have oc: "appends (\<lambda>m. foldl write_val (write_container m ?c) xs)"
    by (rule appends_comp [OF appends_container fl])
  have all: "appends (\<lambda>m. write_end (foldl write_val (write_container m ?c) xs))"
    by (rule appends_comp [OF oc appends_end])
  show ?thesis
  proof (rule appends_cong [OF _ all])
    fix m :: Message
    assume v: "valid m"
    have v1: "valid (write_container m ?c)" by (rule appends_valid [OF appends_container v])
    show "write_val m (VVector T xs) = write_end (foldl write_val (write_container m ?c) xs)"
      using v1 by (simp add: Let_def del: container_signature.simps)
  qed
qed

lemma appends_variant:
  assumes "appends (writeToMessage var)"
  shows "appends (\<lambda>m. write_val m (VVariant var))"
proof (rule appends_cong [OF _ appends_comp [OF appends_prim assms]])
  fix m :: Message
  assume "valid m"
  then show "write_val m (VVariant var)
               = writeToMessage var (write_prim m (PSignature (m_signature var)))"
    by simp
qed

lemma appends_writeToMessage:
  assumes "\<And>x. x \<in> set_option d \<Longrightarrow> appends (\<lambda>m. write_val m x)"
  shows "appends (writeToMessage (Variant s d h))"
proof (cases h)
  case None
  show ?thesis by (rule appends_cong [OF _ appends_id]) (simp add: None)
next
  case (Some T)
  note h = Some
  show ?thesis
  proof (cases d)
    case None
    show ?thesis by (rule appends_cong [OF _ appends_id]) (simp add: None h)
  next
    case (Some x)
    have x: "appends (\<lambda>m. write_val m x)" by (rule assms) (simp add: Some)
    show ?thesis by (rule appends_cong [OF _ x]) (simp add: Some h)
  qed
qed

lemma write_val_appends:
  "appends (\<lambda>m. write_val m v)" "appends (writeToMessage var)"
proof (induction v and var)
  case (VPrim p)
  show ?case by (simp add: appends_prim)
next
  case (VPair a b)
  then show ?case by (rule appends_pair)
next
  case (VTuple t)
  then show ?case by (rule appends_tuple)
next
  case (VDBusStruct t)
  then show ?case by (rule appends_struct)
next
  case (VDictEntry k v)
  then show ?case by (rule appends_dictentry)
next
  case (VVector T xs)
  then show ?case by (rule appends_vector)
next
  case (VVariant var)
  then show ?case by (rule appends_variant)
next
  case (Variant s d h)
  then show ?case by (rule appends_writeToMessage)
qed

lemma write_val_valid: "valid m \<Longrightarrow> valid (write_val m v)"
  by (rule appends_valid [OF write_val_appends(1)])

lemma write_val_stream: "valid m \<Longrightarrow> write_val m v = m\<lparr>stream := stream m @ encoded v\<rparr>"
  unfolding encoded_def by (rule appendsD [OF write_val_appends(1)])

lemma foldl_write_val_stream:
  "valid m \<Longrightarrow> foldl write_val m xs = m\<lparr>stream := stream m @ concat (map encoded xs)\<rparr>"
proof (induction xs arbitrary: m)
  case Nil
  then show ?case by simp
next
  case (Cons x xs)
  have "valid (write_val m x)" using Cons.prems by (rule write_val_valid)
  then show ?case using Cons.prems by (simp add: Cons.IH write_val_stream)
qed


lemma foldl_write_val_valid: "valid m \<Longrightarrow> valid (foldl write_val m xs)"
  by (simp add: foldl_write_val_stream)

lemma write_container_is_valid: "valid m \<Longrightarrow> valid (write_container m c)"
  by (simp add: write_container_valid)

lemma write_DBusStruct_valid:
  assumes "valid m"
  shows "write_val m (VDBusStruct t)
           = write_end (foldl write_val
               (write_container m
                  \<lparr>c_type = CT_Struct,
                   c_content = concat (map (\<lambda>x. signature_of (type_of x)) t)\<rparr>) t)"
proof -
  let ?m1 = "write_container m
               \<lparr>c_type = CT_Struct, c_content = concat (map (\<lambda>x. signature_of (type_of x)) t)\<rparr>"
  have v1: "valid ?m1" using assms by (rule write_container_is_valid)
  have v2: "valid (foldl write_val ?m1 t)" using v1 by (rule foldl_write_val_valid)
  show ?thesis using v1 v2 by (simp add: Let_def marshall_foldl comp_def)
qed

lemma write_DictEntry_valid:
  assumes "valid m"
  shows "write_val m (VDictEntry k v)
           = write_end (write_val (write_val
               (write_container m
                  \<lparr>c_type = CT_DictEntry,
                   c_content = signature_of (type_of k) @ signature_of (type_of v)\<rparr>) k) v)"
proof -
  let ?m1 = "write_container m
               \<lparr>c_type = CT_DictEntry,
                c_content = signature_of (type_of k) @ signature_of (type_of v)\<rparr>"
  have v1: "valid ?m1" using assms by (rule write_container_is_valid)
  have v2: "valid (write_val ?m1 k)" using v1 by (rule write_val_valid)
  have v3: "valid (write_val (write_val ?m1 k) v)" using v2 by (rule write_val_valid)
  show ?thesis using v1 v2 v3 by (simp add: Let_def)
qed

lemma write_Vector_valid:
  assumes "valid m"
  shows "write_val m (VVector T xs)
           = write_end (foldl write_val
               (write_container m \<lparr>c_type = CT_Array, c_content = signature_of T\<rparr>) xs)"
  using write_container_is_valid [OF assms] by (simp add: Let_def)

lemma encoded_VPrim: "encoded (VPrim p) = [WValue p]"
  by (simp add: encoded_def write_prim_valid)

lemma encoded_VDBusStruct:
  "encoded (VDBusStruct t)
     = WOpen CT_Struct (concat (map (\<lambda>x. signature_of (type_of x)) t))
       # concat (map encoded t) @ [WClose]"
  unfolding encoded_def [of "VDBusStruct t"]
  by (simp add: write_DBusStruct_valid write_container_valid foldl_write_val_stream
        write_end_valid del: write_val.simps)

lemma stream_write_val: "valid m \<Longrightarrow> stream (write_val m v) = stream m @ encoded v"
  by (simp add: write_val_stream)

lemma encoded_VDictEntry:
  "encoded (VDictEntry k v)
     = WOpen CT_DictEntry (signature_of (type_of k) @ signature_of (type_of v))
       # encoded k @ encoded v @ [WClose]"
proof -
  let ?m1 = "write_container new_message
               \<lparr>c_type = CT_DictEntry,
                c_content = signature_of (type_of k) @ signature_of (type_of v)\<rparr>"
  have 1: "write_val new_message (VDictEntry k v) = write_end (write_val (write_val ?m1 k) v)"
    by (rule write_DictEntry_valid) simp
  have "stream (write_end (write_val (write_val ?m1 k) v))
          = WOpen CT_DictEntry (signature_of (type_of k) @ signature_of (type_of v))
            # encoded k @ encoded v @ [WClose]"
    by (simp add: write_end_valid write_val_valid stream_write_val write_container_valid)
  then show ?thesis by (simp only: encoded_def [of "VDictEntry k v"] 1)
qed

lemma encoded_VVector:
  "encoded (VVector T xs) = WOpen CT_Array (signature_of T) # concat (map encoded xs) @ [WClose]"
  unfolding encoded_def [of "VVector T xs"]
  by (simp add: write_Vector_valid write_container_valid foldl_write_val_stream write_end_valid
        del: write_val.simps)

lemma unmarshall_Suc:
  "unmarshall k reg (Suc n) t m =
     (case unmarshall k reg n t m of
        None \<Rightarrow> None
      | Some (m1, t1) \<Rightarrow>
          if n < length t
          then (case read_val k reg m1 (t ! n) of
                  None \<Rightarrow> None
                | Some (m2, x) \<Rightarrow> Some (m2, t1[n := x]))
          else Some (m1, t1))"
  by (cases n) (auto split: option.splits)

lemma read_fields_snoc:
  "read_fields k reg m (fs @ [f]) =
     (case read_fields k reg m fs of
        None \<Rightarrow> None
      | Some (m1, fs1) \<Rightarrow>
          (case read_val k reg m1 f of
             None \<Rightarrow> None
           | Some (m2, f1) \<Rightarrow> Some (m2, fs1 @ [f1])))"
  by (induction fs arbitrary: m) (auto split: option.splits)

lemma read_fields_length:
  "read_fields k reg m fs = Some (m1, fs1) \<Longrightarrow> length fs1 = length fs"
  by (induction fs arbitrary: m m1 fs1) (auto split: option.splits)

lemma unmarshall_take:
  "n \<le> length t \<Longrightarrow>
   unmarshall k reg n t m =
     (case read_fields k reg m (take n t) of
        None \<Rightarrow> None
      | Some (m1, fs) \<Rightarrow> Some (m1, fs @ drop n t))"
proof (induction n)
  case 0
  show ?case by simp
next
  case (Suc n)
  then have n: "n < length t" by simp
  have upd: "(fs @ drop n t)[n := x] = (fs @ [x]) @ drop (Suc n) t" if "length fs = n" for fs x
    using that n by (simp add: list_update_append Cons_nth_drop_Suc [symmetric])
  show ?case
    using Suc.IH n
    by (auto simp: unmarshall_Suc take_Suc_conv_app_nth read_fields_snoc upd
             dest: read_fields_length split: option.splits simp del: unmarshall.simps)
qed

lemma unmarshall_read_fields: "unmarshall k reg (length t) t m = read_fields k reg m t"
  by (simp add: unmarshall_take split: option.splits)

section \<open>Decoding what encoding wrote\<close>

lemma ptype_of_default_prim: "ptype_of (default_prim T) = T"
  by (cases T) simp_all

lemma type_of_default_val: "type_of (default_val T) = T"
  by (induction T) (simp_all add: map_idI ptype_of_default_prim)

lemma advance_simps [simp]:
  "valid (advance m n) = valid m" "stream (advance m n) = stream m"
  "cursor (advance m n) = cursor m + n"
  by (simp_all add: advance_def)

lemma advance_advance: "advance (advance m a) b = advance m (a + b)"
  by (simp add: advance_def add.assoc)

lemma encoded_VPair: "encoded (VPair a b) = encoded a @ encoded b"
proof -
  have 1: "write_val new_message (VPair a b) = write_val (write_val new_message a) b"
    by (simp add: write_val_valid Let_def)
  have "stream (write_val (write_val new_message a) b) = encoded a @ encoded b"
    by (simp add: stream_write_val write_val_valid)
  then show ?thesis by (simp only: encoded_def [of "VPair a b"] 1)
qed

lemma encoded_VTuple: "encoded (VTuple t) = concat (map encoded t)"
  by (simp add: encoded_def [of "VTuple t"] marshall_foldl foldl_write_val_stream
        del: marshall.simps)

lemma read_prim_advance:
  assumes "valid m" "drop (cursor m) (stream m) = WValue p # rest" "ptype_of tgt = ptype_of p"
  shows "read_prim m tgt = (advance m (Suc 0), p)"
  using assms by (simp add: read_prim_def advance_def)

lemma read_container_advance:
  assumes "valid m" "drop (cursor m) (stream m) = WOpen t s # rest"
  shows "read_container m \<lparr>c_type = t, c_content = s\<rparr> = advance m (Suc 0)"
  using assms by (simp add: read_container_def advance_def)

lemma read_end_advance:
  assumes "valid m" "drop (cursor m) (stream m) = WClose # rest"
  shows "read_end m = advance m (Suc 0)"
  using assms by (simp add: read_end_def advance_def)

lemma drop_advance:
  assumes "drop (cursor m) (stream m) = xs @ ys"
  shows "drop (cursor (advance m (length xs))) (stream (advance m (length xs))) = ys"
proof -
  have "drop (cursor m + length xs) (stream m) = drop (length xs) (drop (cursor m) (stream m))"
    by (simp add: add.commute)
  then show ?thesis by (simp add: assms)
qed

lemma drop_advance1:
  assumes "drop (cursor m) (stream m) = x # ys"
  shows "drop (cursor (advance m (Suc 0))) (stream (advance m (Suc 0))) = ys"
  using drop_advance [of m "[x]" ys] assms by simp

lemma decodesD:
  "decodes v \<Longrightarrow> valid m \<Longrightarrow> type_of tgt = type_of v \<Longrightarrow>
   drop (cursor m) (stream m) = encoded v @ rest \<Longrightarrow>
   read_val k reg m tgt = Some (advance m (length (encoded v)), v)"
  unfolding decodes_def by blast

lemma decodes_VPrim: "decodes (VPrim p)"
  unfolding decodes_def
proof (intro allI impI)
  fix k reg tgt rest and m :: Message
  assume v: "valid m" and t: "type_of tgt = type_of (VPrim p)"
    and d: "drop (cursor m) (stream m) = encoded (VPrim p) @ rest"
  from t obtain q where q: "tgt = VPrim q" "ptype_of q = ptype_of p"
    by (cases tgt) auto
  have d': "drop (cursor m) (stream m) = WValue p # rest" using d by (simp add: encoded_VPrim)
  have "read_prim m q = (advance m (Suc 0), p)" by (rule read_prim_advance [OF v d' q(2)])
  then show "read_val k reg m tgt = Some (advance m (length (encoded (VPrim p))), VPrim p)"
    by (simp add: q(1) encoded_VPrim)
qed

lemma read_fields_decodes:
  assumes "\<And>x. x \<in> set t \<Longrightarrow> decodes x"
    and "valid m" and "map type_of tt = map type_of t"
    and "drop (cursor m) (stream m) = concat (map encoded t) @ rest"
  shows "read_fields k reg m tt = Some (advance m (length (concat (map encoded t))), t)"
  using assms
proof (induction t arbitrary: tt m)
  case Nil
  then show ?case by (simp add: advance_def)
next
  case (Cons x t)
  from Cons.prems(3) obtain y tt' where tt: "tt = y # tt'" "type_of y = type_of x"
    "map type_of tt' = map type_of t"
    by (cases tt) auto
  let ?m1 = "advance m (length (encoded x))"
  have dx: "drop (cursor m) (stream m) = encoded x @ (concat (map encoded t) @ rest)"
    using Cons.prems(4) by simp
  have decx: "decodes x" by (rule Cons.prems(1)) simp
  have r1: "read_val k reg m y = Some (?m1, x)"
    by (rule decodesD [OF decx Cons.prems(2) tt(2) dx])
  have d1: "drop (cursor ?m1) (stream ?m1) = concat (map encoded t) @ rest"
    by (rule drop_advance [OF dx])
  have v1: "valid ?m1" using Cons.prems(2) by simp
  have dect: "\<And>z. z \<in> set t \<Longrightarrow> decodes z" by (rule Cons.prems(1)) simp
  have r2: "read_fields k reg ?m1 tt' = Some (advance ?m1 (length (concat (map encoded t))), t)"
    by (rule Cons.IH [OF dect v1 tt(3) d1])
  show ?case by (simp add: tt(1) r1 r2 advance_advance del: read_val.simps)
qed

lemma decodes_VPair:
  assumes a: "decodes a" and b: "decodes b"
  shows "decodes (VPair a b)"
  unfolding decodes_def
proof (intro allI impI)
  fix k reg tgt rest and m :: Message
  assume v: "valid m" and t: "type_of tgt = type_of (VPair a b)"
    and d: "drop (cursor m) (stream m) = encoded (VPair a b) @ rest"
  from t obtain ta tb where tgt: "tgt = VPair ta tb" "type_of ta = type_of a"
    "type_of tb = type_of b"
    by (cases tgt) auto
  let ?m1 = "advance m (length (encoded a))"
  have da: "drop (cursor m) (stream m) = encoded a @ (encoded b @ rest)"
    using d by (simp add: encoded_VPair)
  have r1: "read_val k reg m ta = Some (?m1, a)"
    by (rule decodesD [OF a v tgt(2) da])
  have db: "drop (cursor ?m1) (stream ?m1) = encoded b @ rest"
    by (rule drop_advance [OF da])
  have v1: "valid ?m1" using v by simp
  have r2: "read_val k reg ?m1 tb = Some (advance ?m1 (length (encoded b)), b)"
    by (rule decodesD [OF b v1 tgt(3) db])
  show "read_val k reg m tgt = Some (advance m (length (encoded (VPair a b))), VPair a b)"
    using v by (simp add: tgt(1) r1 r2 encoded_VPair advance_advance)
qed

lemma decodes_VTuple:
  assumes "\<And>x. x \<in> set t \<Longrightarrow> decodes x"
  shows "decodes (VTuple t)"
  unfolding decodes_def
proof (intro allI impI)
  fix k reg tgt rest and m :: Message
  assume v: "valid m" and t: "type_of tgt = type_of (VTuple t)"
    and d: "drop (cursor m) (stream m) = encoded (VTuple t) @ rest"
  from t obtain tt where tgt: "tgt = VTuple tt" "map type_of tt = map type_of t"
    by (cases tgt) auto
  have d': "drop (cursor m) (stream m) = concat (map encoded t) @ rest"
    using d by (simp add: encoded_VTuple)
  have "read_fields k reg m tt = Some (advance m (length (concat (map encoded t))), t)"
    by (rule read_fields_decodes [OF assms v tgt(2) d'])
  then show "read_val k reg m tgt = Some (advance m (length (encoded (VTuple t))), VTuple t)"
    by (simp add: tgt(1) unmarshall_read_fields encoded_VTuple del: unmarshall.simps)
qed

lemma decodes_VDBusStruct:
  assumes "\<And>x. x \<in> set t \<Longrightarrow> decodes x"
  shows "decodes (VDBusStruct t)"
  unfolding decodes_def
proof (intro allI impI)
  fix k reg tgt rest and m :: Message
  assume v: "valid m" and t: "type_of tgt = type_of (VDBusStruct t)"
    and d: "drop (cursor m) (stream m) = encoded (VDBusStruct t) @ rest"
  from t obtain tt where tgt: "tgt = VDBusStruct tt" "map type_of tt = map type_of t"
    by (cases tgt) auto
  let ?sig = "concat (map (\<lambda>x. signature_of (type_of x)) t)"
  let ?body = "concat (map encoded t)"
  have sig: "concat (map (\<lambda>x. signature_of (type_of x)) tt) = ?sig"
    using arg_cong [OF tgt(2), of "\<lambda>ts. concat (map signature_of ts)"] by (simp add: comp_def)
  have d0: "drop (cursor m) (stream m) = WOpen CT_Struct ?sig # (?body @ WClose # rest)"
    using d by (simp add: encoded_VDBusStruct)
  let ?m1 = "advance m (Suc 0)"
  have o: "read_container m \<lparr>c_type = CT_Struct, c_content = ?sig\<rparr> = ?m1"
    by (rule read_container_advance [OF v d0])
  have d1: "drop (cursor ?m1) (stream ?m1) = ?body @ (WClose # rest)"
    by (rule drop_advance1 [OF d0])
  have v1: "valid ?m1" using v by simp
  let ?m2 = "advance ?m1 (length ?body)"
  have f: "read_fields k reg ?m1 tt = Some (?m2, t)"
    by (rule read_fields_decodes [OF assms v1 tgt(2) d1])
  have d2: "drop (cursor ?m2) (stream ?m2) = WClose # rest"
    by (rule drop_advance [OF d1])
  have v2: "valid ?m2" using v by simp
  have e: "read_end ?m2 = advance ?m2 (Suc 0)"
    by (rule read_end_advance [OF v2 d2])
  have "read_val k reg m (VDBusStruct tt) = Some (advance ?m2 (Suc 0), VDBusStruct t)"
    using v by (simp add: comp_def sig o f e unmarshall_read_fields Let_def
        del: unmarshall.simps)
  then show "read_val k reg m tgt
          = Some (advance m (length (encoded (VDBusStruct t))), VDBusStruct t)"
    by (simp add: tgt(1) encoded_VDBusStruct advance_advance del: read_val.simps)
qed

lemma decodes_VDictEntry:
  assumes a: "decodes a" and b: "decodes b"
  shows "decodes (VDictEntry a b)"
  unfolding decodes_def
proof (intro allI impI)
  fix k reg tgt rest and m :: Message
  assume v: "valid m" and t: "type_of tgt = type_of (VDictEntry a b)"
    and d: "drop (cursor m) (stream m) = encoded (VDictEntry a b) @ rest"
  from t obtain ta tb where tgt: "tgt = VDictEntry ta tb" "type_of ta = type_of a"
    "type_of tb = type_of b"
    by (cases tgt) auto
  let ?sig = "signature_of (type_of a) @ signature_of (type_of b)"
  have d0: "drop (cursor m) (stream m)
              = WOpen CT_DictEntry ?sig # (encoded a @ (encoded b @ WClose # rest))"
    using d by (simp add: encoded_VDictEntry)
  let ?m1 = "advance m (Suc 0)"
  have o: "read_container m \<lparr>c_type = CT_DictEntry, c_content = ?sig\<rparr> = ?m1"
    by (rule read_container_advance [OF v d0])
  have d1: "drop (cursor ?m1) (stream ?m1) = encoded a @ (encoded b @ WClose # rest)"
    by (rule drop_advance1 [OF d0])
  have v1: "valid ?m1" using v by simp
  let ?m2 = "advance ?m1 (length (encoded a))"
  have r1: "read_val k reg ?m1 ta = Some (?m2, a)"
    by (rule decodesD [OF a v1 tgt(2) d1])
  have d2: "drop (cursor ?m2) (stream ?m2) = encoded b @ (WClose # rest)"
    by (rule drop_advance [OF d1])
  have v2: "valid ?m2" using v by simp
  let ?m3 = "advance ?m2 (length (encoded b))"
  have r2: "read_val k reg ?m2 tb = Some (?m3, b)"
    by (rule decodesD [OF b v2 tgt(3) d2])
  have d3: "drop (cursor ?m3) (stream ?m3) = WClose # rest"
    by (rule drop_advance [OF d2])
  have v3: "valid ?m3" using v by simp
  have e: "read_end ?m3 = advance ?m3 (Suc 0)"
    by (rule read_end_advance [OF v3 d3])
  have "read_val k reg m (VDictEntry ta tb) = Some (advance ?m3 (Suc 0), VDictEntry a b)"
    using v by (simp add: tgt(2,3) o r1 r2 e Let_def)
  then show "read_val k reg m tgt
          = Some (advance m (length (encoded (VDictEntry a b))), VDictEntry a b)"
    by (simp add: tgt(1) encoded_VDictEntry advance_advance del: read_val.simps)
qed

lemma plain_decodes: "plain v \<Longrightarrow> decodes v"
proof (induction v rule: plain.induct)
  case (1 p)
  show ?case by (rule decodes_VPrim)
next
  case (2 a b)
  then show ?case by (simp add: decodes_VPair)
next
  case (3 t)
  then show ?case by (simp add: decodes_VTuple list_all_iff)
next
  case (4 t)
  then show ?case by (simp add: decodes_VDBusStruct list_all_iff)
next
  case (5 k v)
  then show ?case by (simp add: decodes_VDictEntry)
next
  case (6 T xs)
  then show ?case by simp
next
  case (7 v)
  then show ?case by simp
qed

lemma starts_ok_append: "starts_ok xs \<Longrightarrow> starts_ok ys \<Longrightarrow> starts_ok (xs @ ys)"
  by (cases xs) (simp_all add: starts_ok_def)

lemma starts_ok_concat: "(\<And>x. x \<in> set xss \<Longrightarrow> starts_ok x) \<Longrightarrow> starts_ok (concat xss)"
  by (induction xss) (simp_all add: starts_ok_append, simp add: starts_ok_def)

lemma plain_starts_ok: "plain v \<Longrightarrow> starts_ok (encoded v)"
proof (induction v rule: plain.induct)
  case (1 p)
  show ?case by (simp add: encoded_VPrim starts_ok_def)
next
  case (2 a b)
  then show ?case by (simp add: encoded_VPair starts_ok_append)
next
  case (3 t)
  then show ?case by (auto simp: encoded_VTuple list_all_iff intro!: starts_ok_concat)
next
  case (4 t)
  show ?case by (simp add: encoded_VDBusStruct starts_ok_def)
next
  case (5 k v)
  show ?case by (simp add: encoded_VDictEntry starts_ok_def)
next
  case (6 T xs)
  then show ?case by simp
next
  case (7 v)
  then show ?case by simp
qed

lemma not_at_end:
  assumes "starts_ok ws" "ws \<noteq> []" "drop (cursor m) (stream m) = ws @ rest"
  shows "\<not> at_end m"
  using assms by (cases ws) (auto simp: at_end_def starts_ok_def split: wire.splits)

lemma advance_0: "advance m 0 = m"
  by (simp add: advance_def)

lemma read_loop_plain:
  assumes "list_all plain xs" and "\<forall>x\<in>set xs. type_of x = T \<and> encoded x \<noteq> []"
    and "valid m" and "type_of temp = T"
    and "drop (cursor m) (stream m) = concat (map encoded xs) @ WClose # rest"
    and "length xs \<le> k"
  shows "read_loop k reg m temp t0
           = Some (advance m (length (concat (map encoded xs))), last (temp # xs), t0 @ xs)"
  using assms
proof (induction xs arbitrary: m temp t0 k)
  case Nil
  have "at_end m" using Nil.prems(5) by (simp add: at_end_def)
  then show ?case by (subst read_loop.simps) (simp add: advance_0)
next
  case (Cons x xs)
  have px: "plain x" and pxs: "list_all plain xs" using Cons.prems(1) by simp_all
  have tx: "type_of x = T" and nx: "encoded x \<noteq> []" using Cons.prems(2) by simp_all
  have rest: "\<forall>y\<in>set xs. type_of y = T \<and> encoded y \<noteq> []" using Cons.prems(2) by simp
  from Cons.prems(6) obtain k' where k: "k = Suc k'" "length xs \<le> k'"
    by (cases k) auto
  have dx: "drop (cursor m) (stream m)
              = encoded x @ (concat (map encoded xs) @ WClose # rest)"
    using Cons.prems(5) by simp
  have ne: "\<not> at_end m"
    by (rule not_at_end [OF plain_starts_ok [OF px] nx dx])
  let ?m1 = "advance m (length (encoded x))"
  have tt: "type_of temp = type_of x" using Cons.prems(4) tx by simp
  have r1: "read_val k' reg m temp = Some (?m1, x)"
    by (rule decodesD [OF plain_decodes [OF px] Cons.prems(3) tt dx])
  have v1: "valid ?m1" using Cons.prems(3) by simp
  have d1: "drop (cursor ?m1) (stream ?m1) = concat (map encoded xs) @ WClose # rest"
    by (rule drop_advance [OF dx])
  have r2: "read_loop k' reg ?m1 x (t0 @ [x])
              = Some (advance ?m1 (length (concat (map encoded xs))), last (x # xs),
                      (t0 @ [x]) @ xs)"
    by (rule Cons.IH [OF pxs rest v1 tx d1 k(2)])
  have "read_loop (Suc k') reg m temp t0 = read_loop k' reg ?m1 x (t0 @ [x])"
    by (subst read_loop.simps) (simp add: ne r1 Cons.prems(3) del: read_loop.simps read_val.simps)
  then show ?case by (simp add: k(1) r2 advance_advance del: read_loop.simps)
qed

text \<open>
  A vector whose elements are plain (no vector and no Variant inside), of the element type
  and with a non-empty encoding, decodes from its own encoding: the elements are appended to
  the target in encoded order and the cursor ends past the closing marker.
\<close>

lemma vector_of_plain_decodes:
  assumes "list_all plain xs" and "\<forall>x\<in>set xs. type_of x = T \<and> encoded x \<noteq> []"
    and "valid m"
    and "drop (cursor m) (stream m) = encoded (VVector T xs) @ rest"
    and "length xs \<le> k"
  shows "read_val k reg m (VVector T t0)
           = Some (advance m (length (encoded (VVector T xs))), VVector T (t0 @ xs))"
proof -
  let ?body = "concat (map encoded xs)"
  have d0: "drop (cursor m) (stream m)
              = WOpen CT_Array (signature_of T) # (?body @ WClose # rest)"
    using assms(4) by (simp add: encoded_VVector)
  let ?m1 = "advance m (Suc 0)"
  have o: "read_container m \<lparr>c_type = CT_Array, c_content = signature_of T\<rparr> = ?m1"
    by (rule read_container_advance [OF assms(3) d0])
  have v1: "valid ?m1" using assms(3) by simp
  have d1: "drop (cursor ?m1) (stream ?m1) = ?body @ WClose # rest"
    by (rule drop_advance1 [OF d0])
  let ?m2 = "advance ?m1 (length ?body)"
  have tdef: "type_of (default_val T) = T" by (rule type_of_default_val)
  have l: "read_loop k reg ?m1 (default_val T) t0
             = Some (?m2, last (default_val T # xs), t0 @ xs)"
    by (rule read_loop_plain [OF assms(1,2) v1 tdef d1 assms(5)])
  have v2: "valid ?m2" using assms(3) by simp
  have d2: "drop (cursor ?m2) (stream ?m2) = WClose # rest"
    using drop_advance [of ?m1 ?body "WClose # rest"] d1 by simp
  have e: "read_end ?m2 = advance ?m2 (Suc 0)"
    by (rule read_end_advance [OF v2 d2])
  have "read_val k reg m (VVector T t0) = Some (advance ?m2 (Suc 0), VVector T (t0 @ xs))"
    using assms(3) by (simp add: o l e Let_def del: read_loop.simps)
  then show ?thesis
    by (simp add: encoded_VVector advance_advance del: read_val.simps)
qed

text \<open>The array of the strings \<open>a\<close> and \<open>b\<close>, decoded into an empty vector.\<close>

lemma vector_of_strings_example:
  "read_val 2 Map.empty
     \<lparr>stream = [WOpen CT_Array ''s'', WValue (PString ''a''), WValue (PString ''b''), WClose],
      cursor = 0, valid = True\<rparr>
     (VVector (TPrim TString) [])
   = Some (\<lparr>stream = [WOpen CT_Array ''s'', WValue (PString ''a''), WValue (PString ''b''),
                        WClose],
             cursor = 4, valid = True\<rparr>,
           VVector (TPrim TString) [VPrim (PString ''a''), VPrim (PString ''b'')])"
proof -
  let ?xs = "[VPrim (PString ''a''), VPrim (PString ''b'')]"
  let ?s = "[WOpen CT_Array ''s'', WValue (PString ''a''), WValue (PString ''b''), WClose]"
  let ?m = "\<lparr>stream = ?s, cursor = 0, valid = True\<rparr>"
  have e: "encoded (VVector (TPrim TString) ?xs) = ?s"
    by (simp add: encoded_VVector encoded_VPrim)
  have "read_val 2 Map.empty ?m (VVector (TPrim TString) [])
          = Some (advance ?m (length (encoded (VVector (TPrim TString) ?xs))),
                  VVector (TPrim TString) ([] @ ?xs))"
    by (rule vector_of_plain_decodes [where rest = "[]"]) (simp_all add: e encoded_VPrim)
  then show ?thesis by (simp add: e advance_def del: read_val.simps)
qed



lemma DBusStruct_round_trip:
  assumes "valid m" and "list_all plain t" and "map type_of tgt = map type_of t"
    and "drop (cursor m) (stream m) = encoded (VDBusStruct t) @ rest"
  shows "read_val k reg m (VDBusStruct tgt)
           = Some (m\<lparr>cursor := cursor m + length (encoded (VDBusStruct t))\<rparr>, VDBusStruct t)"
proof -
  have "plain (VDBusStruct t)" using assms(2) by simp
  then have "decodes (VDBusStruct t)" by (rule plain_decodes)
  moreover have "type_of (VDBusStruct tgt) = type_of (VDBusStruct t)" using assms(3) by simp
  ultimately show ?thesis
    using decodesD [of "VDBusStruct t" m "VDBusStruct tgt" rest k reg] assms(1,4)
    by (simp add: advance_def del: read_val.simps)
qed


lemma Tuple_round_trip:
  assumes "valid m" and "list_all plain t" and "map type_of tgt = map type_of t"
    and "drop (cursor m) (stream m) = encoded (VTuple t) @ rest"
  shows "read_val k reg m (VTuple tgt)
           = Some (m\<lparr>cursor := cursor m + length (encoded (VTuple t))\<rparr>, VTuple t)"
proof -
  have "plain (VTuple t)" using assms(2) by simp
  then have "decodes (VTuple t)" by (rule plain_decodes)
  moreover have "type_of (VTuple tgt) = type_of (VTuple t)" using assms(3) by simp
  ultimately show ?thesis
    using decodesD [of "VTuple t" m "VTuple tgt" rest k reg] assms(1,4)
    by (simp add: advance_def del: read_val.simps)
qed

text \<open>
  C5, as the code has it. A DBusStruct is encoded as one Struct container: on a
  valid Message the overload is the open marker, whose content signature is the
  concatenation of the field signatures, then the fields, then the close marker, and
  the stream grows by exactly these wire values, the encodings of the fields in
  declared order in between. The recursion of \<open>TupleMarshaller\<close> over \<open>N\<close>, which
  handles the first \<open>N - 1\<close> fields before field \<open>N - 1\<close>, visits the fields from the
  first to the last: \<open>marshall\<close> is the left fold of \<open>operator<<\<close> over the fields and
  \<open>unmarshall\<close> is \<open>read_fields\<close>, so decoding consumes the open marker and then
  walks the fields in the same order, each on the Message the field before it left.
  At a valid Message whose stream continues with the encoding of a DBusStruct with
  fields \<open>t\<close>, none of them containing a vector or a Variant, decoding into a
  DBusStruct of the same field types returns the fields \<open>t\<close> in their order and
  moves the cursor past the close marker.

  A bare \<open>std::tuple\<close> goes through the same marshaller without a container: its
  overloads (message.h:376-380, 467-471) are \<open>marshall\<close> and \<open>unmarshall\<close> alone, so
  the stream grows by the encodings of the fields in declared order and by nothing
  else, and decoding reads the fields in that order from where the cursor stands.
\<close>

theorem DBusStruct_marshalling:
  "(valid m \<longrightarrow> list_all derefs_ok t \<longrightarrow>
      write_val m (VDBusStruct t)
        = write_end (foldl write_val
            (write_container m
               \<lparr>c_type = CT_Struct,
                c_content = concat (map (\<lambda>x. signature_of (type_of x)) t)\<rparr>) t)
      \<and> stream (write_val m (VDBusStruct t))
        = stream m @ [WOpen CT_Struct (concat (map (\<lambda>x. signature_of (type_of x)) t))]
            @ concat (map encoded t) @ [WClose])
   \<and> marshall (length t) t m = foldl write_val m t
   \<and> unmarshall k reg (length t) t m = read_fields k reg m t
   \<and> read_val k reg m (VDBusStruct t)
       = (let m1 = read_container m
                     \<lparr>c_type = CT_Struct,
                      c_content = concat (map (\<lambda>x. signature_of (type_of x)) t)\<rparr>
          in if valid m1
             then (case read_fields k reg m1 t of
                     None \<Rightarrow> None
                   | Some (m2, t1) \<Rightarrow>
                       Some (if valid m2 then read_end m2 else m2, VDBusStruct t1))
             else Some (m1, VDBusStruct t))
   \<and> (valid m \<longrightarrow> list_all plain t \<longrightarrow> map type_of tgt = map type_of t \<longrightarrow>
       drop (cursor m) (stream m) = encoded (VDBusStruct t) @ rest \<longrightarrow>
       read_val k reg m (VDBusStruct tgt)
         = Some (m\<lparr>cursor := cursor m + length (encoded (VDBusStruct t))\<rparr>, VDBusStruct t))
   \<and> write_val m (VTuple t) = foldl write_val m t
   \<and> (valid m \<longrightarrow> list_all derefs_ok t \<longrightarrow>
       stream (write_val m (VTuple t)) = stream m @ concat (map encoded t))
   \<and> read_val k reg m (VTuple t)
       = (case read_fields k reg m t of
            None \<Rightarrow> None
          | Some (m1, t1) \<Rightarrow> Some (m1, VTuple t1))
   \<and> (valid m \<longrightarrow> list_all plain t \<longrightarrow> map type_of tgt = map type_of t \<longrightarrow>
       drop (cursor m) (stream m) = encoded (VTuple t) @ rest \<longrightarrow>
       read_val k reg m (VTuple tgt)
         = Some (m\<lparr>cursor := cursor m + length (encoded (VTuple t))\<rparr>, VTuple t))"
proof (intro conjI impI)
  assume v: "valid m"
  show "write_val m (VDBusStruct t)
        = write_end (foldl write_val
            (write_container m
               \<lparr>c_type = CT_Struct,
                c_content = concat (map (\<lambda>x. signature_of (type_of x)) t)\<rparr>) t)"
    using v by (rule write_DBusStruct_valid)
  show "stream (write_val m (VDBusStruct t))
        = stream m @ [WOpen CT_Struct (concat (map (\<lambda>x. signature_of (type_of x)) t))]
            @ concat (map encoded t) @ [WClose]"
    using v by (simp add: stream_write_val encoded_VDBusStruct del: write_val.simps)
next
  show "marshall (length t) t m = foldl write_val m t" by (rule marshall_foldl)
next
  show "unmarshall k reg (length t) t m = read_fields k reg m t"
    by (rule unmarshall_read_fields)
next
  show "read_val k reg m (VDBusStruct t)
       = (let m1 = read_container m
                     \<lparr>c_type = CT_Struct,
                      c_content = concat (map (\<lambda>x. signature_of (type_of x)) t)\<rparr>
          in if valid m1
             then (case read_fields k reg m1 t of
                     None \<Rightarrow> None
                   | Some (m2, t1) \<Rightarrow>
                       Some (if valid m2 then read_end m2 else m2, VDBusStruct t1))
             else Some (m1, VDBusStruct t))"
    by (simp add: unmarshall_read_fields comp_def Let_def del: unmarshall.simps)
next
  assume "valid m" and "list_all plain t" and "map type_of tgt = map type_of t"
    and "drop (cursor m) (stream m) = encoded (VDBusStruct t) @ rest"
  then show "read_val k reg m (VDBusStruct tgt)
         = Some (m\<lparr>cursor := cursor m + length (encoded (VDBusStruct t))\<rparr>, VDBusStruct t)"
    by (rule DBusStruct_round_trip)
next
  show "write_val m (VTuple t) = foldl write_val m t" by (simp add: marshall_foldl)
next
  assume v: "valid m"
  show "stream (write_val m (VTuple t)) = stream m @ concat (map encoded t)"
    using v by (simp add: stream_write_val encoded_VTuple del: write_val.simps)
next
  show "read_val k reg m (VTuple t)
       = (case read_fields k reg m t of
            None \<Rightarrow> None
          | Some (m1, t1) \<Rightarrow> Some (m1, VTuple t1))"
    by (simp add: unmarshall_read_fields del: unmarshall.simps)
next
  assume "valid m" and "list_all plain t" and "map type_of tgt = map type_of t"
    and "drop (cursor m) (stream m) = encoded (VTuple t) @ rest"
  then show "read_val k reg m (VTuple tgt)
         = Some (m\<lparr>cursor := cursor m + length (encoded (VTuple t))\<rparr>, VTuple t)"
    by (rule Tuple_round_trip)
qed

text \<open>
  C5, as stated for every DBusStruct/tuple value, fails for a tuple: encoding the
  \<open>std::tuple\<close> of \<open>true\<close> and the double \<open>7\<close> appends the two fields and neither a
  Struct open marker nor a close marker, where the DBusStruct of the same fields
  is enclosed in both; decoding a tuple reads the two fields and consumes no marker.
\<close>

theorem tuple_opens_no_container:
  "stream (write_val new_message (VTuple [VPrim (PBool True), VPrim (PDouble 7)]))
     = [WValue (PBool True), WValue (PDouble 7)]
   \<and> WOpen CT_Struct ''bd''
       \<notin> set (stream (write_val new_message (VTuple [VPrim (PBool True), VPrim (PDouble 7)])))
   \<and> WClose
       \<notin> set (stream (write_val new_message (VTuple [VPrim (PBool True), VPrim (PDouble 7)])))
   \<and> stream (write_val new_message (VDBusStruct [VPrim (PBool True), VPrim (PDouble 7)]))
       = [WOpen CT_Struct ''bd'', WValue (PBool True), WValue (PDouble 7), WClose]
   \<and> read_val 0 Map.empty
         \<lparr>stream = [WValue (PBool True), WValue (PDouble 7)], cursor = 0, valid = True\<rparr>
         (VTuple [VPrim (PBool False), VPrim (PDouble 0)])
       = Some (\<lparr>stream = [WValue (PBool True), WValue (PDouble 7)], cursor = 2, valid = True\<rparr>,
               VTuple [VPrim (PBool True), VPrim (PDouble 7)])"
  by (simp add: new_message_def write_prim_def write_container_def write_end_def
        read_prim_def numeral_2_eq_2)

theorem DBusStruct_marshalling_witness:
  "valid new_message
   \<and> list_all derefs_ok [VPrim (PBool True), VPrim (PDouble 7)]
   \<and> stream (write_val new_message (VDBusStruct [VPrim (PBool True), VPrim (PDouble 7)]))
       = [WOpen CT_Struct ''bd'', WValue (PBool True), WValue (PDouble 7), WClose]
   \<and> stream (write_val new_message (VTuple [VPrim (PBool True), VPrim (PDouble 7)]))
       = [WValue (PBool True), WValue (PDouble 7)]
   \<and> list_all plain [VPrim (PBool True), VPrim (PDouble 7)]
   \<and> map type_of [VPrim (PBool False), VPrim (PDouble 0)]
       = map type_of [VPrim (PBool True), VPrim (PDouble 7)]
   \<and> read_val 0 Map.empty
         \<lparr>stream = [WOpen CT_Struct ''bd'', WValue (PBool True), WValue (PDouble 7), WClose],
          cursor = 0, valid = True\<rparr>
         (VDBusStruct [VPrim (PBool False), VPrim (PDouble 0)])
       = Some (\<lparr>stream = [WOpen CT_Struct ''bd'', WValue (PBool True), WValue (PDouble 7),
                            WClose],
                 cursor = 4, valid = True\<rparr>,
               VDBusStruct [VPrim (PBool True), VPrim (PDouble 7)])
   \<and> read_val 0 Map.empty
         \<lparr>stream = [WValue (PBool True), WValue (PDouble 7)], cursor = 0, valid = True\<rparr>
         (VTuple [VPrim (PBool False), VPrim (PDouble 0)])
       = Some (\<lparr>stream = [WValue (PBool True), WValue (PDouble 7)], cursor = 2, valid = True\<rparr>,
               VTuple [VPrim (PBool True), VPrim (PDouble 7)])"
proof -
  let ?t = "[VPrim (PBool True), VPrim (PDouble 7)]"
  let ?tgt = "[VPrim (PBool False), VPrim (PDouble 0)]"
  let ?s = "[WOpen CT_Struct ''bd'', WValue (PBool True), WValue (PDouble 7), WClose]"
  let ?m = "\<lparr>stream = ?s, cursor = 0, valid = True\<rparr>"
  let ?s2 = "[WValue (PBool True), WValue (PDouble 7)]"
  let ?m2 = "\<lparr>stream = ?s2, cursor = 0, valid = True\<rparr>"
  have h: "valid new_message" "list_all derefs_ok ?t" by simp_all
  have "stream (write_val new_message (VDBusStruct ?t))
          = stream new_message @ [WOpen CT_Struct (concat (map (\<lambda>x. signature_of (type_of x)) ?t))]
              @ concat (map encoded ?t) @ [WClose]"
    using DBusStruct_marshalling [of new_message ?t] h by blast
  then have w: "stream (write_val new_message (VDBusStruct ?t)) = ?s"
    by (simp add: encoded_VPrim del: write_val.simps)
  have "stream (write_val new_message (VTuple ?t)) = stream new_message @ concat (map encoded ?t)"
    using DBusStruct_marshalling [of new_message ?t] h by blast
  then have w2: "stream (write_val new_message (VTuple ?t)) = ?s2"
    by (simp add: encoded_VPrim del: write_val.simps)
  have e: "encoded (VDBusStruct ?t) = ?s"
    by (simp add: encoded_VDBusStruct encoded_VPrim)
  have e2: "encoded (VTuple ?t) = ?s2"
    by (simp add: encoded_VTuple encoded_VPrim)
  have g: "valid ?m" "list_all plain ?t" "map type_of ?tgt = map type_of ?t"
    "drop (cursor ?m) (stream ?m) = encoded (VDBusStruct ?t) @ []"
    by (simp_all add: e)
  have g2: "valid ?m2" "drop (cursor ?m2) (stream ?m2) = encoded (VTuple ?t) @ []"
    by (simp_all add: e2)
  have "read_val 0 Map.empty ?m (VDBusStruct ?tgt)
          = Some (?m\<lparr>cursor := cursor ?m + length (encoded (VDBusStruct ?t))\<rparr>, VDBusStruct ?t)"
    using DBusStruct_marshalling [of ?m ?t 0 Map.empty ?tgt "[]"] g by blast
  then have r: "read_val 0 Map.empty ?m (VDBusStruct ?tgt)
          = Some (\<lparr>stream = ?s, cursor = 4, valid = True\<rparr>, VDBusStruct ?t)"
    by (simp add: e del: read_val.simps)
  have "read_val 0 Map.empty ?m2 (VTuple ?tgt)
          = Some (?m2\<lparr>cursor := cursor ?m2 + length (encoded (VTuple ?t))\<rparr>, VTuple ?t)"
    using DBusStruct_marshalling [of ?m2 ?t 0 Map.empty ?tgt "[]"] g(2,3) g2 by blast
  then have r2: "read_val 0 Map.empty ?m2 (VTuple ?tgt)
          = Some (\<lparr>stream = ?s2, cursor = 2, valid = True\<rparr>, VTuple ?t)"
    by (simp add: e2 del: read_val.simps)
  show ?thesis using h w w2 g(2,3) r r2 by (simp del: write_val.simps read_val.simps)
qed




section \<open>Primitive round trip\<close>

lemma read_prim_at_cursor:
  assumes "valid m" "drop (cursor m) (stream m) = WValue p # rest" "ptype_of tgt = ptype_of p"
  shows "read_prim m tgt = (m\<lparr>cursor := Suc (cursor m)\<rparr>, p)"
  using assms by (simp add: read_prim_def)

text \<open>
  C2. For every primitive value \<open>p\<close>: written into a valid Message whose cursor
  stands at the end of the stream and read back into a target of the same primitive
  type, \<open>p\<close> is the value read, the Message stays valid and the cursor has moved past
  exactly that one wire value. The signature of what was written is the canonical
  signature of the type of \<open>p\<close>, and the canonical signatures of the thirteen
  primitive types are the codes of the spec's table. (A double is compared as its
  bit pattern.)
\<close>

theorem primitive_round_trip:
  assumes "valid m" and "cursor m = length (stream m)" and "ptype_of tgt = ptype_of p"
  shows "read_val k reg (write_val m (VPrim p)) (VPrim tgt)
           = Some (m\<lparr>stream := stream m @ [WValue p], cursor := Suc (cursor m)\<rparr>, VPrim p)
       \<and> stream_signature 0 (drop (length (stream m)) (stream (write_val m (VPrim p))))
           = signature_of (type_of (VPrim p))
       \<and> map (\<lambda>T. signature_of (TPrim T))
            [TUInt8, TBool, TInt16, TUInt16, TInt32, TUInt32, TInt64, TUInt64, TDouble,
             TString, TObjectPath, TSignature, TUnixFD]
           = [''y'', ''b'', ''n'', ''q'', ''i'', ''u'', ''x'', ''t'', ''d'', ''s'', ''o'', ''g'', ''h'']"
proof (intro conjI)
  let ?m1 = "m\<lparr>stream := stream m @ [WValue p]\<rparr>"
  have w: "write_val m (VPrim p) = ?m1" using assms(1) by (simp add: write_prim_valid)
  have "read_prim ?m1 tgt = (?m1\<lparr>cursor := Suc (cursor ?m1)\<rparr>, p)"
    by (rule read_prim_at_cursor [where rest = "[]"]) (simp_all add: assms)
  then show "read_val k reg (write_val m (VPrim p)) (VPrim tgt)
           = Some (m\<lparr>stream := stream m @ [WValue p], cursor := Suc (cursor m)\<rparr>, VPrim p)"
    by (simp add: write_prim_valid [OF assms(1)])
  show "stream_signature 0 (drop (length (stream m)) (stream (write_val m (VPrim p))))
           = signature_of (type_of (VPrim p))"
    by (simp add: write_prim_valid [OF assms(1)])
  show "map (\<lambda>T. signature_of (TPrim T))
            [TUInt8, TBool, TInt16, TUInt16, TInt32, TUInt32, TInt64, TUInt64, TDouble,
             TString, TObjectPath, TSignature, TUnixFD]
           = [''y'', ''b'', ''n'', ''q'', ''i'', ''u'', ''x'', ''t'', ''d'', ''s'', ''o'', ''g'', ''h'']"
    by simp
qed

theorem primitive_round_trip_witness:
  "valid new_message \<and> cursor new_message = length (stream new_message)
   \<and> ptype_of (PInt32 0) = ptype_of (PInt32 42)
   \<and> read_val 0 Map.empty (write_val new_message (VPrim (PInt32 42))) (VPrim (PInt32 0))
       = Some (\<lparr>stream = [WValue (PInt32 42)], cursor = 1, valid = True\<rparr>, VPrim (PInt32 42))
   \<and> stream_signature 0 (stream (write_val new_message (VPrim (PInt32 42)))) = ''i''"
proof -
  have h: "valid new_message" "cursor new_message = length (stream new_message)"
    "ptype_of (PInt32 0) = ptype_of (PInt32 42)" by simp_all
  note rt = primitive_round_trip [OF h, of 0 Map.empty]
  have 1: "read_val 0 Map.empty (write_val new_message (VPrim (PInt32 42))) (VPrim (PInt32 0))
       = Some (new_message\<lparr>stream := stream new_message @ [WValue (PInt32 42)],
                 cursor := Suc (cursor new_message)\<rparr>, VPrim (PInt32 42))"
    by (rule rt [THEN conjunct1])
  have 2: "stream_signature 0 (drop (length (stream new_message))
               (stream (write_val new_message (VPrim (PInt32 42)))))
             = signature_of (type_of (VPrim (PInt32 42)))"
    by (rule rt [THEN conjunct2, THEN conjunct1])
  have r1: "read_val 0 Map.empty (write_val new_message (VPrim (PInt32 42))) (VPrim (PInt32 0))
       = Some (\<lparr>stream = [WValue (PInt32 42)], cursor = 1, valid = True\<rparr>, VPrim (PInt32 42))"
    using 1 by (simp add: new_message_def del: read_val.simps write_val.simps)
  have r2: "stream_signature 0 (stream (write_val new_message (VPrim (PInt32 42)))) = ''i''"
    using 2 by (simp del: write_val.simps)
  show ?thesis using h r1 r2 by (simp del: read_val.simps write_val.simps)
qed

section \<open>Decoding a Variant through the registry\<close>

lemma registerType_consistent:
  "lookupType (foldl registerType Map.empty Ts) s = Some T \<Longrightarrow> signature_of T = s"
proof (induction Ts arbitrary: T rule: rev_induct)
  case Nil
  then show ?case by (simp add: lookupType_def)
next
  case (snoc U Ts)
  have step: "lookupType (foldl registerType Map.empty (Ts @ [U])) s
          = (if s = signature_of U then Some U
             else lookupType (foldl registerType Map.empty Ts) s)"
    by (simp add: lookupType_def registerType_def)
  show ?case
  proof (cases "s = signature_of U")
    case True
    then have "T = U" using snoc.prems step by simp
    then show ?thesis using True by simp
  next
    case False
    then have "lookupType (foldl registerType Map.empty Ts) s = Some T"
      using snoc.prems step by simp
    then show ?thesis by (rule snoc.IH)
  qed
qed

lemma read_signature_at_cursor:
  assumes "valid m" "drop (cursor m) (stream m) = WValue (PSignature s) # rest"
  shows "read_signature m = (m\<lparr>cursor := Suc (cursor m)\<rparr>, s)"
  using assms by (simp add: read_signature_def read_prim_def)

text \<open>
  C3. Decoding a Variant from a valid Message whose next wire value is a signature
  value \<open>s\<close> consumes that value and looks \<open>s\<close> up in the registry. With no table
  registered for \<open>s\<close> the Message becomes Invalid and the target Variant is left as
  it was. With the table of a type \<open>T\<close> registered, decoding is delegated to
  \<open>deserialize\<close> on a value-initialised \<open>T\<close>; if that leaves the Message valid, the
  target holds the decoded payload, the helper of \<open>T\<close> and the signature of \<open>T\<close>, and
  otherwise the target is left as it was. In a registry filled by \<open>registerType\<close>
  the signature of \<open>T\<close> is the signature \<open>s\<close> that was read.
\<close>

theorem Variant_decode:
  assumes "valid m" and "drop (cursor m) (stream m) = WValue (PSignature s) # rest"
  shows "(lookupType reg s = None \<longrightarrow>
            read_val k reg m (VVariant tgt)
              = Some (fail (m\<lparr>cursor := Suc (cursor m)\<rparr>), VVariant tgt)
          \<and> \<not> valid (fail (m\<lparr>cursor := Suc (cursor m)\<rparr>)))
       \<and> (lookupType reg s = Some T \<longrightarrow>
            read_val (Suc k) reg m (VVariant tgt)
              = (case deserialize k reg (m\<lparr>cursor := Suc (cursor m)\<rparr>) (default_val T) of
                   None \<Rightarrow> None
                 | Some (m2, d) \<Rightarrow>
                     if valid m2
                     then Some (m2, VVariant (Variant (signature_of T) (Some d) (Some T)))
                     else Some (m2, VVariant tgt))
          \<and> deserialize k reg (m\<lparr>cursor := Suc (cursor m)\<rparr>) (default_val T)
              = read_val k reg (m\<lparr>cursor := Suc (cursor m)\<rparr>) (default_val T))
       \<and> (lookupType (foldl registerType Map.empty Ts) s = Some T \<longrightarrow> signature_of T = s)"
proof (intro conjI impI)
  note rs = read_signature_at_cursor [OF assms]
  {
    assume "lookupType reg s = None"
    then show "read_val k reg m (VVariant tgt)
              = Some (fail (m\<lparr>cursor := Suc (cursor m)\<rparr>), VVariant tgt)"
      using assms(1) rs by simp
  }
  show "\<not> valid (fail (m\<lparr>cursor := Suc (cursor m)\<rparr>))" by (simp add: fail_def)
  {
    assume "lookupType reg s = Some T"
    then show "read_val (Suc k) reg m (VVariant tgt)
              = (case deserialize k reg (m\<lparr>cursor := Suc (cursor m)\<rparr>) (default_val T) of
                   None \<Rightarrow> None
                 | Some (m2, d) \<Rightarrow>
                     if valid m2
                     then Some (m2, VVariant (Variant (signature_of T) (Some d) (Some T)))
                     else Some (m2, VVariant tgt))"
      using assms(1) rs
      by (simp add: setRawData_def del: deserialize.simps split: option.split)
  }
  show "deserialize k reg (m\<lparr>cursor := Suc (cursor m)\<rparr>) (default_val T)
              = read_val k reg (m\<lparr>cursor := Suc (cursor m)\<rparr>) (default_val T)"
    by simp
  {
    assume "lookupType (foldl registerType Map.empty Ts) s = Some T"
    then show "signature_of T = s" by (rule registerType_consistent)
  }
qed


theorem Variant_decode_witness:
  "valid \<lparr>stream = [WValue (PSignature ''u''), WValue (PUInt32 7)], cursor = 0, valid = True\<rparr>
   \<and> lookupType Map.empty ''u'' = None
   \<and> read_val 0 Map.empty
         \<lparr>stream = [WValue (PSignature ''u''), WValue (PUInt32 7)], cursor = 0, valid = True\<rparr>
         (VVariant (Variant [] None None))
       = Some (\<lparr>stream = [WValue (PSignature ''u''), WValue (PUInt32 7)], cursor = 1,
                  valid = False\<rparr>,
               VVariant (Variant [] None None))
   \<and> lookupType (registerType Map.empty (TPrim TUInt32)) ''u'' = Some (TPrim TUInt32)
   \<and> read_val 1 (registerType Map.empty (TPrim TUInt32))
         \<lparr>stream = [WValue (PSignature ''u''), WValue (PUInt32 7)], cursor = 0, valid = True\<rparr>
         (VVariant (Variant [] None None))
       = Some (\<lparr>stream = [WValue (PSignature ''u''), WValue (PUInt32 7)], cursor = 2,
                  valid = True\<rparr>,
               VVariant (Variant ''u'' (Some (VPrim (PUInt32 7))) (Some (TPrim TUInt32))))
   \<and> lookupType (foldl registerType Map.empty [TPrim TUInt32]) ''u'' = Some (TPrim TUInt32)
   \<and> signature_of (TPrim TUInt32) = ''u''"
proof -
  let ?m = "\<lparr>stream = [WValue (PSignature ''u''), WValue (PUInt32 7)], cursor = 0, valid = True\<rparr>"
  let ?reg = "registerType Map.empty (TPrim TUInt32)"
  let ?tgt = "Variant [] None None"
  have h: "valid ?m" "drop (cursor ?m) (stream ?m) = WValue (PSignature ''u'') # [WValue (PUInt32 7)]"
    by simp_all
  have n: "lookupType Map.empty ''u'' = None" by (simp add: lookupType_def)
  have s: "lookupType ?reg ''u'' = Some (TPrim TUInt32)"
    by (simp add: lookupType_def registerType_def)
  have a: "read_val 0 Map.empty ?m (VVariant ?tgt)
             = Some (fail (?m\<lparr>cursor := Suc (cursor ?m)\<rparr>), VVariant ?tgt)"
    using Variant_decode [OF h, where reg = Map.empty and k = 0 and tgt = ?tgt] n by blast
  have b: "read_val (Suc 0) ?reg ?m (VVariant ?tgt)
             = (case deserialize 0 ?reg (?m\<lparr>cursor := Suc (cursor ?m)\<rparr>)
                       (default_val (TPrim TUInt32)) of
                  None \<Rightarrow> None
                | Some (m2, d) \<Rightarrow>
                    if valid m2
                    then Some (m2, VVariant (Variant (signature_of (TPrim TUInt32)) (Some d)
                                               (Some (TPrim TUInt32))))
                    else Some (m2, VVariant ?tgt))"
    using Variant_decode [OF h, where reg = ?reg and T = "TPrim TUInt32" and k = 0 and tgt = ?tgt] s
    by blast
  have a': "read_val 0 Map.empty ?m (VVariant ?tgt)
       = Some (\<lparr>stream = [WValue (PSignature ''u''), WValue (PUInt32 7)], cursor = 1,
                  valid = False\<rparr>, VVariant ?tgt)"
    unfolding a by (simp add: fail_def)
  have b': "read_val 1 ?reg ?m (VVariant ?tgt)
       = Some (\<lparr>stream = [WValue (PSignature ''u''), WValue (PUInt32 7)], cursor = 2,
                  valid = True\<rparr>,
               VVariant (Variant ''u'' (Some (VPrim (PUInt32 7))) (Some (TPrim TUInt32))))"
    unfolding One_nat_def b by (simp add: read_prim_def)
  have f: "lookupType (foldl registerType Map.empty [TPrim TUInt32]) ''u'' = Some (TPrim TUInt32)"
    by (simp add: lookupType_def registerType_def)
  have g: "signature_of (TPrim TUInt32) = ''u''"
    using Variant_decode [OF h, where Ts = "[TPrim TUInt32]" and T = "TPrim TUInt32"] f
    by blast
  show ?thesis using h(1) n s a' b' f g by (simp del: read_val.simps)
qed

section \<open>Decoding a vector\<close>

text \<open>
  C4. The vector overload of \<open>operator>>\<close> at the stream that encoding
  \<open>[[1], [2]]\<close> (a vector of vectors of int32, signature \<open>aai\<close>) produces, decoded
  into an empty vector: the loop pushes the one temporary \<open>temp\<close>, into which the
  inner decode appends without clearing it, so the second element of the result is
  \<open>[1, 2]\<close> and not the element \<open>[2]\<close> found in the stream. (For elements that
  contain neither a vector nor a Variant, \<open>vector_of_plain_decodes\<close> above shows
  that the loop appends the elements of the stream in order and stops after the
  close marker.)
\<close>

theorem vector_decode_nested_temp:
  "stream (write_val new_message
      (VVector (TVector (TPrim TInt32))
         [VVector (TPrim TInt32) [VPrim (PInt32 1)], VVector (TPrim TInt32) [VPrim (PInt32 2)]]))
     = [WOpen CT_Array ''ai'', WOpen CT_Array ''i'', WValue (PInt32 1), WClose,
        WOpen CT_Array ''i'', WValue (PInt32 2), WClose, WClose]
   \<and> read_val 4 Map.empty
       \<lparr>stream = [WOpen CT_Array ''ai'', WOpen CT_Array ''i'', WValue (PInt32 1), WClose,
                   WOpen CT_Array ''i'', WValue (PInt32 2), WClose, WClose],
        cursor = 0, valid = True\<rparr>
       (VVector (TVector (TPrim TInt32)) [])
     = Some (\<lparr>stream = [WOpen CT_Array ''ai'', WOpen CT_Array ''i'', WValue (PInt32 1), WClose,
                   WOpen CT_Array ''i'', WValue (PInt32 2), WClose, WClose],
               cursor = 8, valid = True\<rparr>,
             VVector (TVector (TPrim TInt32))
               [VVector (TPrim TInt32) [VPrim (PInt32 1)],
                VVector (TPrim TInt32) [VPrim (PInt32 1), VPrim (PInt32 2)]])"
  by (simp add: new_message_def write_container_def write_prim_def write_end_def
        read_container_def read_prim_def read_end_def at_end_def Let_def)

section \<open>The Variant invariant\<close>

lemma type_of_copy_val:
  "type_of (copy_val v) = type_of v" "m_helper (Variant_copy var) = m_helper var"
  by (induction v and var) (auto split: option.splits)

lemma settled_copy:
  "settled v \<Longrightarrow> copy_val v = v" "settled_Variant var \<Longrightarrow> Variant_copy var = var"
  by (induction v and var)
     (auto simp: list_all_iff map_idI split: option.splits)

lemma setData_Lvalue:
  assumes "type_of x \<noteq> TVariant"
  shows "setData this (Lvalue x)
           = Variant (signature_of (type_of x)) (Some (copy_val x)) (Some (type_of x))"
  using assms by (cases x) simp_all

lemma setData_Rvalue:
  assumes "type_of x \<noteq> TVariant"
  shows "setData this (Rvalue x) = Variant (signature_of (type_of x)) (Some x) (Some (type_of x))"
  using assms by (cases x) simp_all

lemma Variant_move_assign_eq: "Variant_move_assign this v = v"
  by (cases v) (simp add: Variant_move_assign_def)

lemma helper_matches_setRawData: "helper_matches (setRawData this data helper)"
  by (cases helper) (simp_all add: setRawData_def helper_matches_def)

lemma helper_matches_Variant_assign:
  "helper_matches v \<Longrightarrow> helper_matches (Variant_assign this v)"
  by (simp add: Variant_assign_def helper_matches_def split: option.splits)

lemma helper_matches_Variant_copy: "helper_matches v \<Longrightarrow> helper_matches (Variant_copy v)"
  by (cases v) (simp add: helper_matches_def split: option.splits)

lemma payload_matches_copy:
  assumes "m_helper v = Some T" and "payload_matches v" and "helper_matches v"
  shows "m_signature v = signature_of (type_of (copy T (m_data v)))"
proof -
  have sig: "m_signature v = signature_of T" using assms(1,3) by (simp add: helper_matches_def)
  show ?thesis
  proof (cases "m_data v")
    case None
    then show ?thesis using sig by (simp add: type_of_default_val)
  next
    case (Some d)
    then show ?thesis using assms(2) by (simp add: payload_matches_def type_of_copy_val)
  qed
qed

lemma payload_matches_Variant_assign:
  assumes "m_helper v \<noteq> None" and "payload_matches v" and "helper_matches v"
  shows "payload_matches (Variant_assign this v)"
proof -
  from assms(1) obtain T where T: "m_helper v = Some T" by blast
  show ?thesis
    using payload_matches_copy [OF T assms(2,3)] T
    by (simp add: Variant_assign_def payload_matches_def)
qed

lemma payload_matches_Variant_copy:
  assumes "payload_matches v" and "helper_matches v"
  shows "payload_matches (Variant_copy v)"
proof (cases "m_helper v")
  case None
  then show ?thesis by (cases v) (simp add: payload_matches_def)
next
  case (Some T)
  show ?thesis
    using payload_matches_copy [OF Some assms] Some
    by (cases v) (simp add: payload_matches_def)
qed

lemma setData_value:
  assumes "is_value a"
  shows "payload_matches (setData this a)" and "helper_matches (setData this a)"
proof -
  show "payload_matches (setData this a)"
  proof (cases a)
    case (Lvalue x)
    then have "type_of x \<noteq> TVariant" using assms by simp
    from setData_Lvalue [OF this, of this] Lvalue show ?thesis
      by (simp add: payload_matches_def type_of_copy_val)
  next
    case (Rvalue x)
    then have "type_of x \<noteq> TVariant" using assms by simp
    from setData_Rvalue [OF this, of this] Rvalue show ?thesis
      by (simp add: payload_matches_def)
  qed
  show "helper_matches (setData this a)"
  proof (cases a)
    case (Lvalue x)
    then have "type_of x \<noteq> TVariant" using assms by simp
    from setData_Lvalue [OF this, of this] Lvalue show ?thesis
      by (simp add: helper_matches_def)
  next
    case (Rvalue x)
    then have "type_of x \<noteq> TVariant" using assms by simp
    from setData_Rvalue [OF this, of this] Rvalue show ?thesis
      by (simp add: helper_matches_def)
  qed
qed

lemma helper_matches_after: "values_only h \<Longrightarrow> helper_matches (Variant_after h)"
proof (induction h)
  case Default_ctor
  show ?case by (simp add: Variant_default_def helper_matches_def)
next
  case (Value_ctor a)
  then show ?case by (simp add: Variant_ctor_def setData_value(2))
next
  case (Copy_ctor s)
  then show ?case by (simp add: helper_matches_Variant_copy del: Variant_copy.simps)
next
  case (Move_ctor s)
  then show ?case by simp
next
  case (Then_setData h a)
  then show ?case by (simp add: setData_value(2))
next
  case (Then_setRawData h d helper)
  show ?case by (simp add: helper_matches_setRawData)
next
  case (Then_assign h s)
  then show ?case by (simp add: helper_matches_Variant_assign)
next
  case (Then_move_assign h s)
  then show ?case by (simp add: Variant_move_assign_eq)
next
  case (Then_moved_from h left)
  show ?case by (simp add: moved_from_def helper_matches_def)
qed

lemma payload_matches_after:
  "values_only h \<Longrightarrow> guarded h \<Longrightarrow> payload_matches (Variant_after h)"
proof (induction h)
  case Default_ctor
  show ?case by (simp add: Variant_default_def payload_matches_def)
next
  case (Value_ctor a)
  then show ?case by (simp add: Variant_ctor_def setData_value(1))
next
  case (Copy_ctor s)
  then have "payload_matches (Variant_after s)" "helper_matches (Variant_after s)"
    by (simp_all add: helper_matches_after)
  then show ?case by (simp add: payload_matches_Variant_copy del: Variant_copy.simps)
next
  case (Move_ctor s)
  then show ?case by simp
next
  case (Then_setData h a)
  then show ?case by (simp add: setData_value(1))
next
  case (Then_setRawData h d helper)
  then show ?case
    by (cases d; cases helper) (simp_all add: setRawData_def payload_matches_def)
next
  case (Then_assign h s)
  then have ps: "payload_matches (Variant_after s)" and hs: "helper_matches (Variant_after s)"
    by (simp_all add: helper_matches_after)
  show ?case
  proof (cases "m_helper (Variant_after s)")
    case None
    then have "m_data (Variant_after h) = None"
      using Then_assign.prems(2) by (simp split: option.splits)
    then show ?thesis using None by (simp add: Variant_assign_def payload_matches_def)
  next
    case (Some T)
    then have "m_helper (Variant_after s) \<noteq> None" by simp
    from payload_matches_Variant_assign [OF this ps hs] show ?thesis by simp
  qed
next
  case (Then_move_assign h s)
  then show ?case by (simp add: Variant_move_assign_eq)
next
  case (Then_moved_from h left)
  show ?case by (simp add: moved_from_def payload_matches_def)
qed

text \<open>
  C7, as the code has it, in two parts.

  Signature and helper are updated together by every operation. The signature is
  that of the type the bound helper handles (\<open>helper_matches\<close>) after default
  construction, after construction from a value, after \<open>setData\<close> with a value that
  is not a Variant and after \<open>setRawData\<close> with any arguments; copy construction,
  copy assignment and move assignment carry the property over from their source, and
  the source of a move, left with null pointers, has it.

  The payload follows only in the cases below. After construction from a value and
  after \<open>setData\<close> with a value that is not itself a Variant, the signature is the
  signature of the value's type and the payload is a copy of an lvalue argument
  (equal to it when the Variants inside it are settled) and the value itself, moved,
  of an rvalue argument; \<open>setData(const char *)\<close> is the
  rvalue case for a string. \<open>setData\<close> with an lvalue Variant is copy assignment,
  with an rvalue Variant move assignment. After copy assignment from a Variant that
  has a helper bound, whose signature is that of its helper and whose payload's
  type is the one its signature names, the same holds of the target, and the
  signature is the source's; so after copy construction from a Variant with these
  two properties. Move assignment takes the three members of the source together.
  After \<open>setRawData\<close> with a helper and a payload of the helper's type, the
  payload's type is the one the signature names. \<open>setRawData\<close> with a null helper
  stores the payload and leaves the signature as it was; copy assignment from a
  Variant without helper takes its signature and keeps the payload the target had.

  So, whatever operations a Variant object and the sources of its copies and moves
  went through, its signature is that of its helper; and the payload's type is the
  one the signature names if every \<open>setRawData\<close> among them passed a null payload or
  a payload together with the helper of its type, and every copy assignment had a
  source with a helper bound or a target without payload.
\<close>

theorem Variant_mutations:
  "payload_matches Variant_default \<and> helper_matches Variant_default
   \<and> payload_matches (moved_from s) \<and> helper_matches (moved_from s)
   \<and> helper_matches (setRawData this data helper)
   \<and> (helper_matches v \<longrightarrow>
         helper_matches (Variant_assign this v)
       \<and> helper_matches (Variant_move_assign this v)
       \<and> helper_matches (Variant_copy v))
   \<and> (type_of x \<noteq> TVariant \<longrightarrow>
         setData this (Lvalue x)
           = Variant (signature_of (type_of x)) (Some (copy_val x)) (Some (type_of x))
       \<and> setData this (Rvalue x)
           = Variant (signature_of (type_of x)) (Some x) (Some (type_of x))
       \<and> type_of (copy_val x) = type_of x
       \<and> (settled x \<longrightarrow> copy_val x = x)
       \<and> payload_matches (setData this (Lvalue x)) \<and> helper_matches (setData this (Lvalue x))
       \<and> payload_matches (setData this (Rvalue x)) \<and> helper_matches (setData this (Rvalue x))
       \<and> payload_matches (Variant_ctor (Lvalue x)) \<and> helper_matches (Variant_ctor (Lvalue x))
       \<and> payload_matches (Variant_ctor (Rvalue x)) \<and> helper_matches (Variant_ctor (Rvalue x)))
   \<and> setData_cstr this str = Variant ''s'' (Some (VPrim (PString str))) (Some (TPrim TString))
   \<and> payload_matches (setData_cstr this str) \<and> helper_matches (setData_cstr this str)
   \<and> setData this (Lvalue (VVariant v)) = Variant_assign this v
   \<and> setData this (Rvalue (VVariant v)) = Variant_move_assign this v
   \<and> (m_helper v \<noteq> None \<longrightarrow> payload_matches v \<longrightarrow> helper_matches v \<longrightarrow>
         payload_matches (Variant_assign this v)
       \<and> m_signature (Variant_assign this v) = m_signature v)
   \<and> (m_helper v = None \<longrightarrow>
         Variant_assign this v = Variant (m_signature v) (m_data this) None)
   \<and> (payload_matches v \<longrightarrow> helper_matches v \<longrightarrow> payload_matches (Variant_copy v))
   \<and> Variant_move_assign this v = v
   \<and> (payload_matches v \<longrightarrow> payload_matches (Variant_move_assign this v))
   \<and> (type_of d = T \<longrightarrow>
         payload_matches (setRawData this (Some d) (Some T))
       \<and> setRawData this (Some d) (Some T) = Variant (signature_of T) (Some d) (Some T))
   \<and> setRawData this data None = Variant (m_signature this) data None
   \<and> (values_only hist \<longrightarrow> helper_matches (Variant_after hist))
   \<and> (values_only hist \<longrightarrow> guarded hist \<longrightarrow> payload_matches (Variant_after hist))"
proof (intro conjI impI)
  show "payload_matches Variant_default" "helper_matches Variant_default"
    by (simp_all add: Variant_default_def payload_matches_def helper_matches_def)
  show "payload_matches (moved_from s)" "helper_matches (moved_from s)"
    by (simp_all add: moved_from_def payload_matches_def helper_matches_def)
  show "helper_matches (setRawData this data helper)" by (rule helper_matches_setRawData)
next
  assume hm: "helper_matches v"
  show "helper_matches (Variant_assign this v)"
    using hm by (rule helper_matches_Variant_assign)
  show "helper_matches (Variant_move_assign this v)"
    using hm by (simp add: Variant_move_assign_eq)
  show "helper_matches (Variant_copy v)" using hm by (rule helper_matches_Variant_copy)
next
  assume nv: "type_of x \<noteq> TVariant"
  note sl = setData_Lvalue [OF nv]
  note sr = setData_Rvalue [OF nv]
  show "setData this (Lvalue x)
          = Variant (signature_of (type_of x)) (Some (copy_val x)) (Some (type_of x))"
    by (rule sl)
  show "setData this (Rvalue x) = Variant (signature_of (type_of x)) (Some x) (Some (type_of x))"
    by (rule sr)
  show "type_of (copy_val x) = type_of x" by (rule type_of_copy_val)
  show "copy_val x = x" if "settled x" using that by (rule settled_copy)
  show "payload_matches (setData this (Lvalue x))"
    by (simp add: sl payload_matches_def type_of_copy_val)
  show "helper_matches (setData this (Lvalue x))" by (simp add: sl helper_matches_def)
  show "payload_matches (setData this (Rvalue x))" by (simp add: sr payload_matches_def)
  show "helper_matches (setData this (Rvalue x))" by (simp add: sr helper_matches_def)
  show "payload_matches (Variant_ctor (Lvalue x))"
    by (simp add: Variant_ctor_def sl payload_matches_def type_of_copy_val)
  show "helper_matches (Variant_ctor (Lvalue x))"
    by (simp add: Variant_ctor_def sl helper_matches_def)
  show "payload_matches (Variant_ctor (Rvalue x))"
    by (simp add: Variant_ctor_def sr payload_matches_def)
  show "helper_matches (Variant_ctor (Rvalue x))"
    by (simp add: Variant_ctor_def sr helper_matches_def)
next
  show "setData_cstr this str = Variant ''s'' (Some (VPrim (PString str))) (Some (TPrim TString))"
    by (simp add: setData_cstr_def)
  show "payload_matches (setData_cstr this str)"
    by (simp add: setData_cstr_def payload_matches_def)
  show "helper_matches (setData_cstr this str)"
    by (simp add: setData_cstr_def helper_matches_def)
  show "setData this (Lvalue (VVariant v)) = Variant_assign this v" by simp
  show "setData this (Rvalue (VVariant v)) = Variant_move_assign this v" by simp
next
  assume "m_helper v \<noteq> None" and "payload_matches v" and "helper_matches v"
  then show "payload_matches (Variant_assign this v)" by (rule payload_matches_Variant_assign)
next
  show "m_signature (Variant_assign this v) = m_signature v"
    by (simp add: Variant_assign_def)
next
  assume "m_helper v = None"
  then show "Variant_assign this v = Variant (m_signature v) (m_data this) None"
    by (simp add: Variant_assign_def)
next
  assume "payload_matches v" and "helper_matches v"
  then show "payload_matches (Variant_copy v)" by (rule payload_matches_Variant_copy)
next
  show "Variant_move_assign this v = v" by (rule Variant_move_assign_eq)
next
  assume "payload_matches v"
  then show "payload_matches (Variant_move_assign this v)"
    by (simp add: Variant_move_assign_eq)
next
  assume "type_of d = T"
  then show "payload_matches (setRawData this (Some d) (Some T))"
    by (simp add: setRawData_def payload_matches_def)
next
  show "setRawData this (Some d) (Some T) = Variant (signature_of T) (Some d) (Some T)"
    by (simp add: setRawData_def)
next
  show "setRawData this data None = Variant (m_signature this) data None"
    by (simp add: setRawData_def)
next
  assume "values_only hist"
  then show "helper_matches (Variant_after hist)" by (rule helper_matches_after)
next
  assume "values_only hist" and "guarded hist"
  then show "payload_matches (Variant_after hist)" by (rule payload_matches_after)
qed

text \<open>
  C7, as stated, fails: a Variant built from the uint32 \<open>7\<close> has signature \<open>u\<close>;
  \<open>setRawData\<close> with a string payload and a null helper replaces the payload and,
  by its guard \<open>if (helper_)\<close> (message.h:180), leaves the signature \<open>u\<close>.
  Copy assignment has the same guard (message.h:157): assigning a default-constructed
  Variant to that Variant replaces the signature by the empty one and keeps the
  uint32 payload.
\<close>

theorem Variant_invariant_counterexample:
  "payload_matches (Variant_of (VPrim (PUInt32 7)))
   \<and> m_signature (Variant_of (VPrim (PUInt32 7))) = ''u''
   \<and> setRawData (Variant_of (VPrim (PUInt32 7))) (Some (VPrim (PString ''x''))) None
       = Variant ''u'' (Some (VPrim (PString ''x''))) None
   \<and> \<not> payload_matches
         (setRawData (Variant_of (VPrim (PUInt32 7))) (Some (VPrim (PString ''x''))) None)
   \<and> Variant_assign (Variant_of (VPrim (PUInt32 7))) Variant_default
       = Variant [] (Some (VPrim (PUInt32 7))) None
   \<and> \<not> payload_matches (Variant_assign (Variant_of (VPrim (PUInt32 7))) Variant_default)"
  by (simp add: Variant_of_def Variant_ctor_def Variant_default_def Variant_assign_def
        setRawData_def payload_matches_def)

theorem Variant_mutations_witness:
  "helper_matches (Variant ''u'' (Some (VPrim (PUInt32 7))) (Some (TPrim TUInt32)))
   \<and> payload_matches (Variant ''u'' (Some (VPrim (PUInt32 7))) (Some (TPrim TUInt32)))
   \<and> m_helper (Variant ''u'' (Some (VPrim (PUInt32 7))) (Some (TPrim TUInt32))) \<noteq> None
   \<and> helper_matches (Variant_copy (Variant ''u'' (Some (VPrim (PUInt32 7))) (Some (TPrim TUInt32))))
   \<and> payload_matches (Variant_copy (Variant ''u'' (Some (VPrim (PUInt32 7))) (Some (TPrim TUInt32))))
   \<and> payload_matches
        (Variant_assign (Variant ''s'' (Some (VPrim (PString ''x''))) (Some (TPrim TString)))
           (Variant ''u'' (Some (VPrim (PUInt32 7))) (Some (TPrim TUInt32))))
   \<and> payload_matches
        (Variant_move_assign (Variant [] None None)
           (Variant ''u'' (Some (VPrim (PUInt32 7))) (Some (TPrim TUInt32))))
   \<and> type_of (VVector (TPrim TString) [VPrim (PString ''a'')]) \<noteq> TVariant
   \<and> setData (Variant ''u'' (Some (VPrim (PUInt32 7))) (Some (TPrim TUInt32)))
        (Rvalue (VVector (TPrim TString) [VPrim (PString ''a'')]))
       = Variant ''as'' (Some (VVector (TPrim TString) [VPrim (PString ''a'')]))
           (Some (TVector (TPrim TString)))
   \<and> payload_matches
        (setData (Variant ''u'' (Some (VPrim (PUInt32 7))) (Some (TPrim TUInt32)))
           (Lvalue (VVector (TPrim TString) [VPrim (PString ''a'')])))
   \<and> settled (VVector (TPrim TString) [VPrim (PString ''a'')])
   \<and> setData (Variant ''u'' (Some (VPrim (PUInt32 7))) (Some (TPrim TUInt32)))
        (Lvalue (VVector (TPrim TString) [VPrim (PString ''a'')]))
       = Variant ''as'' (Some (VVector (TPrim TString) [VPrim (PString ''a'')]))
           (Some (TVector (TPrim TString)))
   \<and> type_of (VPrim (PUInt32 7)) = TPrim TUInt32
   \<and> payload_matches
        (setRawData (Variant [] None None) (Some (VPrim (PUInt32 7))) (Some (TPrim TUInt32)))
   \<and> m_helper (Variant ''g'' None None) = None
   \<and> Variant_assign (Variant ''u'' (Some (VPrim (PUInt32 7))) (Some (TPrim TUInt32)))
         (Variant ''g'' None None)
       = Variant ''g'' (Some (VPrim (PUInt32 7))) None
   \<and> values_only
        (Then_assign (Then_setRawData (Value_ctor (Rvalue (VPrim (PUInt32 7)))) None None)
           (Copy_ctor (Value_ctor (Lvalue (VPrim (PString ''x''))))))
   \<and> guarded
        (Then_assign (Then_setRawData (Value_ctor (Rvalue (VPrim (PUInt32 7)))) None None)
           (Copy_ctor (Value_ctor (Lvalue (VPrim (PString ''x''))))))
   \<and> Variant_after
        (Then_assign (Then_setRawData (Value_ctor (Rvalue (VPrim (PUInt32 7)))) None None)
           (Copy_ctor (Value_ctor (Lvalue (VPrim (PString ''x''))))))
       = Variant ''s'' (Some (VPrim (PString ''x''))) (Some (TPrim TString))
   \<and> helper_matches
        (Variant_after
           (Then_assign (Then_setRawData (Value_ctor (Rvalue (VPrim (PUInt32 7)))) None None)
              (Copy_ctor (Value_ctor (Lvalue (VPrim (PString ''x'')))))))
   \<and> payload_matches
        (Variant_after
           (Then_assign (Then_setRawData (Value_ctor (Rvalue (VPrim (PUInt32 7)))) None None)
              (Copy_ctor (Value_ctor (Lvalue (VPrim (PString ''x'')))))))"
proof -
  let ?x = "VPrim (PUInt32 7)"
  let ?y = "VVector (TPrim TString) [VPrim (PString ''a'')]"
  let ?v = "Variant ''u'' (Some ?x) (Some (TPrim TUInt32))"
  let ?old = "Variant ''s'' (Some (VPrim (PString ''x''))) (Some (TPrim TString))"
  have h1: "type_of ?y \<noteq> TVariant" by simp
  have h2: "helper_matches ?v" "payload_matches ?v" "m_helper ?v \<noteq> None"
    by (simp_all add: payload_matches_def helper_matches_def)
  have h3: "type_of ?x = TPrim TUInt32" by simp
  have c0: "helper_matches (Variant_copy ?v)"
    using Variant_mutations [where v = ?v] h2 by blast
  have c1: "payload_matches (Variant_copy ?v)"
    using Variant_mutations [where v = ?v] h2 by blast
  have c2: "payload_matches (Variant_assign ?old ?v)"
    using Variant_mutations [where this = ?old and v = ?v] h2 by blast
  have c3: "payload_matches (Variant_move_assign (Variant [] None None) ?v)"
    using Variant_mutations [where this = "Variant [] None None" and v = ?v] h2 by blast
  have "setData ?v (Rvalue ?y)
          = Variant (signature_of (type_of ?y)) (Some ?y) (Some (type_of ?y))"
    using Variant_mutations [where this = ?v and x = ?y] h1 by blast
  then have c4: "setData ?v (Rvalue ?y) = Variant ''as'' (Some ?y) (Some (TVector (TPrim TString)))"
    by simp
  have c5: "payload_matches (setData ?v (Lvalue ?y))"
    using Variant_mutations [where this = ?v and x = ?y] h1 by blast
  have h6: "settled ?y" by simp
  have "setData ?v (Lvalue ?y)
          = Variant (signature_of (type_of ?y)) (Some (copy_val ?y)) (Some (type_of ?y))"
    and "copy_val ?y = ?y"
    using Variant_mutations [where this = ?v and x = ?y] h1 h6 by blast+
  then have c10: "setData ?v (Lvalue ?y) = Variant ''as'' (Some ?y) (Some (TVector (TPrim TString)))"
    by (simp del: setData.simps copy_val.simps)
  have c6: "payload_matches (setRawData (Variant [] None None) (Some ?x) (Some (TPrim TUInt32)))"
    using Variant_mutations [where this = "Variant [] None None" and d = ?x
        and T = "TPrim TUInt32"] h3 by blast
  have h4: "m_helper (Variant ''g'' None None) = None" by simp
  have "Variant_assign ?v (Variant ''g'' None None)
          = Variant (m_signature (Variant ''g'' None None)) (m_data ?v) None"
    using Variant_mutations [where this = ?v and v = "Variant ''g'' None None"] h4 by blast
  then have c7: "Variant_assign ?v (Variant ''g'' None None) = Variant ''g'' (Some ?x) None"
    by simp
  let ?hist = "Then_assign (Then_setRawData (Value_ctor (Rvalue ?x)) None None)
                 (Copy_ctor (Value_ctor (Lvalue (VPrim (PString ''x'')))))"
  have h5: "values_only ?hist" "guarded ?hist"
    by (simp_all add: Variant_ctor_def setRawData_def)
  have r: "Variant_after ?hist = Variant ''s'' (Some (VPrim (PString ''x''))) (Some (TPrim TString))"
    by (simp add: Variant_ctor_def setRawData_def Variant_assign_def)
  have c8: "helper_matches (Variant_after ?hist)"
    using Variant_mutations [where hist = ?hist] h5 by blast
  have c9: "payload_matches (Variant_after ?hist)"
    using Variant_mutations [where hist = ?hist] h5 by blast
  show ?thesis using h1 h2 h3 h4 c0 c1 c2 c3 c4 c5 c6 c7 h5 r c8 c9 h6 c10 by blast
qed

section \<open>Formatting and copying\<close>

text \<open>
  C9. A default-constructed Variant has the empty signature, a null payload and no
  helper; \<open>printData\<close> appends nothing for it, and formatting it gives the frame
  with empty signature and empty content. A Variant built from the uint32 \<open>7\<close> has
  signature \<open>u\<close> and is formatted as the frame around what log.h prints for the
  uint32 \<open>7\<close>: with the decimal \<open>7\<close> there, the text is
  \<open>Variant(sig=u, content=7)\<close>.
\<close>

theorem Variant_formatting:
  "m_signature Variant_default = [] \<and> m_data Variant_default = None
   \<and> m_helper Variant_default = None
   \<and> printData lg Variant_default = []
   \<and> log_val lg (VVariant Variant_default) = ''Variant(sig=, content=)''
   \<and> m_signature (Variant_of (VPrim (PUInt32 7))) = ''u''
   \<and> log_val lg (VVariant (Variant_of (VPrim (PUInt32 7))))
       = ''Variant(sig=u, content='' @ lg (VPrim (PUInt32 7)) @ '')''
   \<and> (lg (VPrim (PUInt32 7)) = ''7'' \<longrightarrow>
        log_val lg (VVariant (Variant_of (VPrim (PUInt32 7)))) = ''Variant(sig=u, content=7)'')"
  by (simp add: Variant_default_def Variant_of_def Variant_ctor_def)

theorem Variant_formatting_witness:
  "log_unsigned (VPrim (PUInt32 7)) = ''7''
   \<and> log_val log_unsigned (VVariant (Variant_of (VPrim (PUInt32 7))))
       = ''Variant(sig=u, content=7)''
   \<and> log_val log_unsigned (VVariant Variant_default) = ''Variant(sig=, content=)''"
proof -
  have h: "log_unsigned (VPrim (PUInt32 7)) = ''7''"
    by (simp add: log_unsigned_def decimal.simps)
  have a: "log_val log_unsigned (VVariant (Variant_of (VPrim (PUInt32 7))))
             = ''Variant(sig=u, content=7)''"
    using Variant_formatting [of log_unsigned] h by blast
  have b: "log_val log_unsigned (VVariant Variant_default) = ''Variant(sig=, content=)''"
    using Variant_formatting [of log_unsigned] by blast
  show ?thesis using h a b by blast
qed

text \<open>
  C10. \<open>VariantHelper<T>::copy\<close> with a null source returns a value-initialised
  \<open>T\<close>, of type \<open>T\<close>, in a newly allocated payload cell. So the copy constructor
  and copy assignment, applied to a Variant that has a helper bound and a null
  payload, give a Variant whose payload is that default value and is not null.
\<close>

theorem copy_null_is_default:
  "copy T None = default_val T
   \<and> type_of (copy T None) = T
   \<and> Variant_copy (Variant s None (Some T)) = Variant s (Some (default_val T)) (Some T)
   \<and> m_data (Variant_copy (Variant s None (Some T))) \<noteq> None
   \<and> Variant_assign this (Variant s None (Some T)) = Variant s (Some (default_val T)) (Some T)
   \<and> copy_ptr h T None = (h @ [default_val T], length h)
   \<and> Variant_copy_ctor h \<lparr>o_signature = s, o_data = None, o_helper = Some T\<rparr>
       = (h @ [default_val T], \<lparr>o_signature = s, o_data = Some (length h), o_helper = Some T\<rparr>)
   \<and> deref (h @ [default_val T])
         \<lparr>o_signature = s, o_data = Some (length h), o_helper = Some T\<rparr>
       = Variant s (Some (default_val T)) (Some T)"
  by (simp add: type_of_default_val Variant_assign_def copy_ptr_def make_shared_def
        Variant_copy_ctor_def deref_def)

theorem copy_null_is_default_witness:
  "copy (TPrim TUInt32) None = VPrim (PUInt32 0)
   \<and> Variant_copy (Variant ''u'' None (Some (TPrim TUInt32)))
       = Variant ''u'' (Some (VPrim (PUInt32 0))) (Some (TPrim TUInt32))
   \<and> copy (TVector (TPrim TString)) None = VVector (TPrim TString) []"
proof -
  have a: "copy (TPrim TUInt32) None = default_val (TPrim TUInt32)"
    using copy_null_is_default [of "TPrim TUInt32"] by blast
  have b: "Variant_copy (Variant ''u'' None (Some (TPrim TUInt32)))
             = Variant ''u'' (Some (default_val (TPrim TUInt32))) (Some (TPrim TUInt32))"
    using copy_null_is_default [of "TPrim TUInt32" "''u''"] by blast
  have c: "copy (TVector (TPrim TString)) None = default_val (TVector (TPrim TString))"
    using copy_null_is_default [of "TVector (TPrim TString)"] by blast
  show ?thesis using a b c by (simp del: copy.simps Variant_copy.simps)
qed

section \<open>Payload ownership after a copy\<close>




















end
